theory Spec2Isabelle
  imports Complex_Main "HOL-Library.Word" "HOL-Library.AList"
begin

unbundle bit_operations_syntax

section \<open>The sequential backend (js-backend.js, class JSBackend)\<close>

text \<open>
  JavaScript numbers are modelled as reals (positions, velocities, radii, the split ratio,
  the population cap, which the constructor stores as it gets it) and as integers (the
  colour, whose values are \<open>0xFF4444\<close> and results of \<open>Math.floor\<close>). The calls of \<open>Math.random()\<close> are
  answered by a stream \<open>rnd :: nat \<Rightarrow> real\<close>; the position in the stream is threaded
  through the code, so that the k-th call of a run returns \<open>rnd k\<close>.
\<close>

record canvas =
  width :: real
  height :: real

record ball =
  x :: real
  y :: real
  vx :: real
  vy :: real
  radius :: real
  color :: int
  justSplit :: bool

record jsbackend =
  canvas :: canvas
  maxBalls :: real
  splitRatio :: real
  balls :: "ball list"

datatype config_error = InvalidConfig

text \<open>
  The constructor (lines 3-19). Its result is a sum, so that a failed construction could be
  told from an object; the source has no \<open>throw\<close> and no check of its arguments, so
  every call takes the one branch there is.
\<close>

definition constructor :: "canvas \<Rightarrow> real \<Rightarrow> real \<Rightarrow> config_error + jsbackend" where
  "constructor cv mb sr =
     Inr \<lparr> canvas = cv, maxBalls = mb, splitRatio = sr,
           balls = [\<lparr> x = width cv / 2, y = height cv / 2, vx = 8.0, vy = - 6.0,
                      radius = 60.0, color = 0xFF4444, justSplit = False \<rparr>] \<rparr>"

text \<open>The body of the loop of \<open>update\<close> (lines 25-89), in the order of the source.\<close>

definition integrate :: "ball \<Rightarrow> ball" where
  "integrate b = b\<lparr> justSplit := False, x := x b + vx b, y := y b + vy b \<rparr>"

definition bounceX :: "canvas \<Rightarrow> ball \<Rightarrow> ball \<times> bool" where
  "bounceX cv b =
     (if x b - radius b < 0 then (b\<lparr> x := radius b, vx := \<bar>vx b\<bar> \<rparr>, True)
      else if x b + radius b > width cv then (b\<lparr> x := width cv - radius b, vx := - \<bar>vx b\<bar> \<rparr>, True)
      else (b, False))"

definition bounceY :: "canvas \<Rightarrow> ball \<Rightarrow> ball \<times> bool" where
  "bounceY cv b =
     (if y b - radius b < 0 then (b\<lparr> y := radius b, vy := \<bar>vy b\<bar> \<rparr>, True)
      else if y b + radius b > height cv then (b\<lparr> y := height cv - radius b, vy := - \<bar>vy b\<bar> \<rparr>, True)
      else (b, False))"

text \<open>
  The child of a split (lines 67-83): \<open>speedFactor\<close> takes the first random number, the
  colour the second, the jitter of \<open>vy\<close> (after an x hit) and of \<open>vx\<close> (after a y hit) the
  next ones. The result is the child and the new position in the stream.
\<close>

definition newBall :: "(nat \<Rightarrow> real) \<Rightarrow> nat \<Rightarrow> ball \<Rightarrow> real \<Rightarrow> bool \<Rightarrow> bool \<Rightarrow> ball \<times> nat" where
  "newBall rnd k b newRadius hitX hitY =
     (let speedFactor = 0.8 + rnd k * 0.4;
          c = \<lparr> x = x b, y = y b, vx = vx b * speedFactor, vy = vy b * speedFactor,
                radius = newRadius, color = \<lfloor>rnd (k + 1) * 0xFFFFFF\<rfloor>, justSplit = True \<rparr>;
          k2 = k + 2;
          (c, k3) = (if hitX then (c\<lparr> vy := vy c + (rnd k2 - 0.5) * 2.0 \<rparr>, k2 + 1) else (c, k2));
          (c, k4) = (if hitY then (c\<lparr> vx := vx c + (rnd k3 - 0.5) * 2.0 \<rparr>, k3 + 1) else (c, k3))
      in (c, k4))"

text \<open>
  One iteration of the loop. \<open>B\<close> is the backend the call started with: the loop changes
  the balls it visits, but neither \<open>this.balls.length\<close> nor the configuration.
  \<open>newBalls\<close> holds the children pushed so far in this call, \<open>k\<close> is the position in the
  random stream. The result is the ball as the iteration leaves it, \<open>newBalls\<close> and \<open>k\<close>.
\<close>

definition iteration ::
  "jsbackend \<Rightarrow> (nat \<Rightarrow> real) \<Rightarrow> ball \<Rightarrow> ball list \<times> nat \<Rightarrow> ball \<times> ball list \<times> nat" where
  "iteration B rnd b0 acc =
     (let (newBalls, k) = acc;
          wasJustSplit = justSplit b0;
          b = integrate b0;
          (b, hitX) = bounceX (canvas B) b;
          (b, hitY) = bounceY (canvas B) b
      in if (hitX \<or> hitY) \<and> \<not> wasJustSplit then
           (let newRadius = radius b * splitRatio B
            in if newRadius \<ge> 1.0 \<and> real (length (balls B)) + real (length newBalls) < maxBalls B then
                 (let b = b\<lparr> radius := newRadius, justSplit := True \<rparr>;
                      (c, k') = newBall rnd k b newRadius hitX hitY
                  in (b, newBalls @ [c], k'))
               else (b\<lparr> radius := max (radius b) 1.0 \<rparr>, newBalls, k))
         else (b, newBalls, k))"

fun loop ::
  "jsbackend \<Rightarrow> (nat \<Rightarrow> real) \<Rightarrow> ball list \<Rightarrow> ball list \<times> nat \<Rightarrow> ball list \<times> ball list \<times> nat" where
  "loop B rnd [] acc = ([], acc)"
| "loop B rnd (b # bs) acc =
     (let (b', acc') = iteration B rnd b acc;
          (bs', acc'') = loop B rnd bs acc'
      in (b' # bs', acc''))"

text \<open>\<open>update\<close> (lines 21-94): the loop over the balls, then the children are appended.\<close>

definition update :: "(nat \<Rightarrow> real) \<Rightarrow> jsbackend \<times> nat \<Rightarrow> jsbackend \<times> nat" where
  "update rnd s =
     (let (B, k) = s;
          (bs, newBalls, k') = loop B rnd (balls B) ([], k)
      in (B\<lparr> balls := bs @ newBalls \<rparr>, k'))"

definition getBallCount :: "jsbackend \<Rightarrow> nat" where
  "getBallCount B = length (balls B)"

text \<open>\<open>ticks rnd n s\<close>: \<open>n\<close> calls of \<open>update\<close>.\<close>

fun ticks :: "(nat \<Rightarrow> real) \<Rightarrow> nat \<Rightarrow> jsbackend \<times> nat \<Rightarrow> jsbackend \<times> nat" where
  "ticks rnd 0 s = s"
| "ticks rnd (Suc n) s = update rnd (ticks rnd n s)"

subsection \<open>Drawing (render, lines 96-140)\<close>

text \<open>
  The calls on the 2D context, in the order \<open>render\<close> makes them. A fill style is the
  string \<open>'#1a1a1a'\<close> or the string the template \<open>rgb(r,g,b)\<close> builds from three
  integers. The colour bytes are taken with \<open>>>\<close> and \<open>&\<close>, which agree on integers with
  \<open>drop_bit\<close> and \<open>AND\<close>. \<open>colorGroups\<close> is a JavaScript \<open>Map\<close>: an association list in
  insertion order, where \<open>set\<close> on a new key appends and on an old key replaces in place.
\<close>

datatype style = Css string | Rgb int int int

datatype ctx_op =
    SetFillStyle style
  | FillRect real real real real
  | BeginPath
  | Arc real real real real real
  | Fill
  | ClosePath

definition rgb :: "int \<Rightarrow> style" where
  "rgb c = Rgb (drop_bit 16 c AND 0xFF) (drop_bit 8 c AND 0xFF) (c AND 0xFF)"

definition group_ball :: "(int \<times> ball list) list \<Rightarrow> ball \<Rightarrow> (int \<times> ball list) list" where
  "group_ball colorGroups b =
     (let colorGroups =
            (if map_of colorGroups (color b) = None then AList.update (color b) [] colorGroups
             else colorGroups)
      in case map_of colorGroups (color b) of
           Some bs \<Rightarrow> AList.update (color b) (bs @ [b]) colorGroups
         | None \<Rightarrow> colorGroups)"

definition fillSquare :: "ball \<Rightarrow> ctx_op" where
  "fillSquare b = FillRect (x b - radius b) (y b - radius b) (radius b * 2) (radius b * 2)"

definition fillCircle :: "ball \<Rightarrow> ctx_op list" where
  "fillCircle b =
     [SetFillStyle (rgb (color b)), BeginPath, Arc (x b) (y b) (radius b) 0 (pi * 2), Fill, ClosePath]"

definition render :: "jsbackend \<Rightarrow> ctx_op list" where
  "render B =
     [SetFillStyle (Css ''#1a1a1a''), FillRect 0 0 (width (canvas B)) (height (canvas B))] @
     (let useFastMode = length (balls B) > 10000
      in if useFastMode then
           (let colorGroups = foldl group_ball [] (balls B)
            in concat (map (\<lambda>(c, bs). SetFillStyle (rgb c) # map fillSquare bs) colorGroups))
         else concat (map fillCircle (balls B)))"

text \<open>A random stream that returns the same number at every call.\<close>

definition const_stream :: "real \<Rightarrow> nat \<Rightarrow> real" where
  "const_stream r k = r"

section \<open>The compute shader (compute-shader.js) and its host (webgpu-backend.js)\<close>

text \<open>
  The WGSL types: \<open>u32\<close> is a 32-bit word (its arithmetic wraps), \<open>f32\<close> is modelled as
  a real, \<open>vec2<f32>\<close> as a pair (\<open>fst\<close> is \<open>.x\<close>, \<open>snd\<close> is \<open>.y\<close>). The fields of
  \<open>struct Ball\<close> and \<open>struct Config\<close> carry the name of their struct where the name is
  already a field of the JavaScript ball or canvas. The state of the three bindings is the
  record \<open>gpu\<close>: the storage array \<open>balls\<close>, the uniform \<open>config\<close>, the atomic
  \<open>ball_count\<close>.
\<close>

type_synonym u32 = "32 word"
type_synonym vec2 = "real \<times> real"

record gball =
  ball_pos :: vec2
  ball_vel :: vec2
  ball_radius :: real
  ball_color :: u32
  just_split :: u32
  padding :: u32

record Config =
  config_width :: real
  config_height :: real
  max_balls :: u32
  split_ratio :: real

record gpu =
  balls_buffer :: "gball list"
  config :: Config
  ball_count :: u32

text \<open>
  The conversions \<open>u32(e)\<close> of an \<open>f32\<close> (towards zero, clamped to the range of
  \<open>u32\<close>) and \<open>f32(e)\<close> of a \<open>u32\<close>, and the generator \<open>random()\<close> with its private
  variable \<open>seed\<close> passed in and returned.
\<close>

definition u32_of_f32 :: "real \<Rightarrow> u32" where
  "u32_of_f32 v = word_of_int (max 0 (min 4294967295 \<lfloor>v\<rfloor>))"

definition f32_of_u32 :: "u32 \<Rightarrow> real" where
  "f32_of_u32 w = real (unat w)"

definition random32 :: "u32 \<Rightarrow> real \<times> u32" where
  "random32 seed0 =
     (let seed = seed0 * 747796405 + 2891336453;
          result = (drop_bit (unat (drop_bit 28 seed + 4)) seed XOR seed) * 277803737
      in (f32_of_u32 (drop_bit 22 result XOR result) / 4294967295.0, seed))"

text \<open>
  The storage array is indexed within its bounds wherever the shader runs as intended; an
  access outside them is modelled as WGSL allows: a read returns a zero value, a write is
  dropped.
\<close>

definition zero_ball :: gball where
  "zero_ball = \<lparr>ball_pos = (0, 0), ball_vel = (0, 0), ball_radius = 0, ball_color = 0,
                 just_split = 0, padding = 0\<rparr>"

definition load_ball :: "gball list \<Rightarrow> u32 \<Rightarrow> gball" where
  "load_ball buf i = (if unat i < length buf then buf ! unat i else zero_ball)"

definition store_ball :: "u32 \<Rightarrow> gball \<Rightarrow> gpu \<Rightarrow> gpu" where
  "store_ball i b g =
     (if unat i < length (balls_buffer g) then g\<lparr>balls_buffer := (balls_buffer g)[unat i := b]\<rparr> else g)"

text \<open>The two reflections (lines 53-73) and the child of a split (lines 96-108).\<close>

definition bounce_x :: "Config \<Rightarrow> gball \<Rightarrow> gball \<times> bool" where
  "bounce_x cfg ball =
     (if fst (ball_pos ball) - ball_radius ball < 0.0 then
        (ball\<lparr>ball_pos := (ball_radius ball, snd (ball_pos ball)),
              ball_vel := (\<bar>fst (ball_vel ball)\<bar>, snd (ball_vel ball))\<rparr>, True)
      else if fst (ball_pos ball) + ball_radius ball > config_width cfg then
        (ball\<lparr>ball_pos := (config_width cfg - ball_radius ball, snd (ball_pos ball)),
              ball_vel := (- \<bar>fst (ball_vel ball)\<bar>, snd (ball_vel ball))\<rparr>, True)
      else (ball, False))"

definition bounce_y :: "Config \<Rightarrow> gball \<Rightarrow> gball \<times> bool" where
  "bounce_y cfg ball =
     (if snd (ball_pos ball) - ball_radius ball < 0.0 then
        (ball\<lparr>ball_pos := (fst (ball_pos ball), ball_radius ball),
              ball_vel := (fst (ball_vel ball), \<bar>snd (ball_vel ball)\<bar>)\<rparr>, True)
      else if snd (ball_pos ball) + ball_radius ball > config_height cfg then
        (ball\<lparr>ball_pos := (fst (ball_pos ball), config_height cfg - ball_radius ball),
              ball_vel := (fst (ball_vel ball), - \<bar>snd (ball_vel ball)\<bar>)\<rparr>, True)
      else (ball, False))"

definition new_ball :: "u32 \<Rightarrow> gball \<Rightarrow> bool \<Rightarrow> bool \<Rightarrow> gball" where
  "new_ball seed ball hit_x hit_y =
     (let (r, seed) = random32 seed;
          speed_factor = 0.8 + r * 0.4;
          nb = ball\<lparr>ball_vel := (fst (ball_vel ball) * speed_factor, snd (ball_vel ball) * speed_factor)\<rparr>;
          (nb, seed) = (if hit_x then
                          (let (r, seed) = random32 seed
                           in (nb\<lparr>ball_vel := (fst (ball_vel nb), snd (ball_vel nb) + (r - 0.5) * 2.0)\<rparr>, seed))
                        else (nb, seed));
          (nb, seed) = (if hit_y then
                          (let (r, seed) = random32 seed
                           in (nb\<lparr>ball_vel := (fst (ball_vel nb) + (r - 0.5) * 2.0, snd (ball_vel nb))\<rparr>, seed))
                        else (nb, seed));
          (r, seed) = random32 seed
      in nb\<lparr>ball_color := u32_of_f32 (r * 16777215.0), just_split := 1\<rparr>)"

text \<open>
  One invocation of the entry point \<open>main\<close> (lines 33-123), run from its first to its last
  statement with no other invocation in between; \<open>idx\<close> is \<open>global_id.x\<close>.
  \<open>atomicLoad\<close> reads \<open>ball_count\<close>, \<open>atomicAdd\<close> returns its old value.
\<close>

definition main :: "u32 \<Rightarrow> gpu \<Rightarrow> gpu" where
  "main idx g =
     (let current_count = ball_count g
      in if idx \<ge> current_count then g
         else
           (let cfg = config g;
                seed = idx * 747796405 + u32_of_f32 (config_width cfg * config_height cfg);
                ball = load_ball (balls_buffer g) idx;
                was_just_split = (just_split ball = 1);
                ball = ball\<lparr>just_split := 0\<rparr>;
                ball = ball\<lparr>ball_pos := (fst (ball_pos ball) + fst (ball_vel ball),
                                         snd (ball_pos ball) + snd (ball_vel ball))\<rparr>;
                (ball, hit_x) = bounce_x cfg ball;
                (ball, hit_y) = bounce_y cfg ball
            in if (hit_x \<or> hit_y) \<and> \<not> was_just_split then
                 (let new_radius = ball_radius ball * split_ratio cfg
                  in if new_radius \<ge> 1.0 then
                       (let current_total = ball_count g
                        in if current_total < max_balls cfg then
                             (let ball = ball\<lparr>ball_radius := new_radius, just_split := 1\<rparr>;
                                  new_idx = ball_count g;
                                  g = g\<lparr>ball_count := ball_count g + 1\<rparr>
                              in if new_idx + 1 \<le> max_balls cfg then
                                   store_ball idx ball
                                     (store_ball new_idx (new_ball seed ball hit_x hit_y) g)
                                 else store_ball idx ball (g\<lparr>ball_count := ball_count g - 1\<rparr>))
                           else store_ball idx ball g)
                     else store_ball idx (ball\<lparr>ball_radius := max (ball_radius ball) 1.0\<rparr>) g)
               else store_ball idx ball g))"

text \<open>
  The host class \<open>WebGPUBackend\<close>: its constructor (lines 4-19, no \<open>throw\<close>),
  \<open>initBuffers\<close> (lines 77-146, with \<open>updateConfig\<close>), and \<open>update\<close> (lines 170-183),
  which dispatches \<open>ceil(ballCount / 64)\<close> workgroups of 64 invocations. WGSL fixes no
  order among the invocations of a dispatch; \<open>dispatch\<close> runs them one after the other in
  the order of a schedule, and \<open>update_in_order\<close> takes the schedule 0, 1, 2, ... Before
  \<open>init\<close> the device is \<open>null\<close> and \<open>update\<close> raises a TypeError: the result \<open>None\<close>.
  \<open>to_uint32\<close> is the conversion of a number stored into a \<open>Uint32Array\<close> (line 157):
  truncated towards zero, modulo \<open>2 ^ 32\<close>. The storage array has as many elements as fit
  the \<open>maxBalls * 32\<close> bytes of its buffer, which \<open>createBuffer\<close> fills with zeros.
\<close>

record webgpubackend =
  gpu_canvas :: canvas
  gpu_maxBalls :: real
  gpu_splitRatio :: real
  ballCount :: nat
  device :: "gpu option"

definition webgpu_constructor :: "canvas \<Rightarrow> real \<Rightarrow> real \<Rightarrow> config_error + webgpubackend" where
  "webgpu_constructor cv mb sr =
     Inr \<lparr>gpu_canvas = cv, gpu_maxBalls = mb, gpu_splitRatio = sr, ballCount = 1, device = None\<rparr>"

definition to_uint32 :: "real \<Rightarrow> u32" where
  "to_uint32 v = word_of_int (if 0 \<le> v then \<lfloor>v\<rfloor> else \<lceil>v\<rceil>)"

definition initBuffers :: "webgpubackend \<Rightarrow> webgpubackend" where
  "initBuffers W =
     W\<lparr>device := Some
        \<lparr>balls_buffer =
           (replicate (nat \<lfloor>gpu_maxBalls W\<rfloor>) zero_ball)
             [0 := \<lparr>ball_pos = (width (gpu_canvas W) / 2, height (gpu_canvas W) / 2), ball_vel = (8.0, - 6.0),
                     ball_radius = 60.0, ball_color = 0xFF4444, just_split = 0, padding = 0\<rparr>],
         config = \<lparr>config_width = width (gpu_canvas W), config_height = height (gpu_canvas W),
                    max_balls = to_uint32 (gpu_maxBalls W), split_ratio = gpu_splitRatio W\<rparr>,
         ball_count = 1\<rparr>\<rparr>"

definition invocations :: "webgpubackend \<Rightarrow> u32 list" where
  "invocations W = map word_of_nat [0 ..< 64 * ((ballCount W + 63) div 64)]"

definition dispatch :: "u32 list \<Rightarrow> gpu \<Rightarrow> gpu" where
  "dispatch schedule g = foldl (\<lambda>g idx. main idx g) g schedule"

definition update_in_order :: "webgpubackend \<Rightarrow> webgpubackend option" where
  "update_in_order W =
     (case device W of
        None \<Rightarrow> None
      | Some g \<Rightarrow> Some (W\<lparr>device := Some (dispatch (invocations W) g)\<rparr>))"

text \<open>
  The same entry point with the invocations of a dispatch interleaved. An invocation is
  the record of its private variables and of the place it has reached (\<open>pc\<close>); \<open>step\<close>
  runs it from one access of the shared memory (the atomic \<open>ball_count\<close>, the storage array)
  to the next: the \<open>atomicLoad\<close> of line 35, the read of \<open>balls[idx]\<close> (line 43) with the
  seed of line 41 and the arithmetic up to line 81, the \<open>atomicLoad\<close> of line 82, the \<open>atomicAdd\<close> of line 90, the
  write of \<open>balls[new_idx]\<close> (line 110) or the \<open>atomicSub\<close> of line 113, and the write of
  \<open>balls[idx]\<close> (line 122). \<open>interleaved turns g\<close> starts every invocation at line 35 and
  lets, for each element of \<open>turns\<close> in order, the invocation of that index take its next
  step; \<open>steps n\<close> lets one invocation take \<open>n\<close> steps in a row.
\<close>

datatype label = AtLoad | AtRead | AtCheck | AtReserve | AtStoreChild | AtRollback | AtStore | Returned

record invocation =
  pc :: label
  global_id :: u32
  var_seed :: u32
  var_ball :: gball
  var_hit_x :: bool
  var_hit_y :: bool
  var_new_idx :: u32

definition start :: "u32 \<Rightarrow> invocation" where
  "start idx = \<lparr>pc = AtLoad, global_id = idx, var_seed = 0, var_ball = zero_ball, var_hit_x = False,
                 var_hit_y = False, var_new_idx = 0\<rparr>"

definition step :: "invocation \<Rightarrow> gpu \<Rightarrow> invocation \<times> gpu" where
  "step i g =
     (let idx = global_id i; cfg = config g
      in case pc i of
           AtLoad \<Rightarrow>
             (let current_count = ball_count g
              in if idx \<ge> current_count then (i\<lparr>pc := Returned\<rparr>, g) else (i\<lparr>pc := AtRead\<rparr>, g))
         | AtRead \<Rightarrow>
             (let seed = idx * 747796405 + u32_of_f32 (config_width cfg * config_height cfg);
                  ball = load_ball (balls_buffer g) idx;
                  was_just_split = (just_split ball = 1);
                  ball = ball\<lparr>just_split := 0\<rparr>;
                  ball = ball\<lparr>ball_pos := (fst (ball_pos ball) + fst (ball_vel ball),
                                           snd (ball_pos ball) + snd (ball_vel ball))\<rparr>;
                  (ball, hit_x) = bounce_x cfg ball;
                  (ball, hit_y) = bounce_y cfg ball;
                  i = i\<lparr>var_seed := seed, var_ball := ball, var_hit_x := hit_x, var_hit_y := hit_y\<rparr>
              in if (hit_x \<or> hit_y) \<and> \<not> was_just_split then
                   (let new_radius = ball_radius ball * split_ratio cfg
                    in if new_radius \<ge> 1.0 then (i\<lparr>pc := AtCheck\<rparr>, g)
                       else (i\<lparr>pc := AtStore, var_ball := ball\<lparr>ball_radius := max (ball_radius ball) 1.0\<rparr>\<rparr>, g))
                 else (i\<lparr>pc := AtStore\<rparr>, g))
         | AtCheck \<Rightarrow>
             (let ball = var_ball i;
                  new_radius = ball_radius ball * split_ratio cfg;
                  current_total = ball_count g
              in if current_total < max_balls cfg then
                   (i\<lparr>pc := AtReserve, var_ball := ball\<lparr>ball_radius := new_radius, just_split := 1\<rparr>\<rparr>, g)
                 else (i\<lparr>pc := AtStore\<rparr>, g))
         | AtReserve \<Rightarrow>
             (let new_idx = ball_count g;
                  g = g\<lparr>ball_count := ball_count g + 1\<rparr>
              in if new_idx + 1 \<le> max_balls cfg then (i\<lparr>pc := AtStoreChild, var_new_idx := new_idx\<rparr>, g)
                 else (i\<lparr>pc := AtRollback, var_new_idx := new_idx\<rparr>, g))
         | AtStoreChild \<Rightarrow>
             (i\<lparr>pc := AtStore\<rparr>,
              store_ball (var_new_idx i) (new_ball (var_seed i) (var_ball i) (var_hit_x i) (var_hit_y i)) g)
         | AtRollback \<Rightarrow> (i\<lparr>pc := AtStore\<rparr>, g\<lparr>ball_count := ball_count g - 1\<rparr>)
         | AtStore \<Rightarrow> (i\<lparr>pc := Returned\<rparr>, store_ball idx (var_ball i) g)
         | Returned \<Rightarrow> (i, g))"

definition turn :: "(u32 \<Rightarrow> invocation) \<times> gpu \<Rightarrow> u32 \<Rightarrow> (u32 \<Rightarrow> invocation) \<times> gpu" where
  "turn s idx = (let (i, g) = step (fst s idx) (snd s) in ((fst s)(idx := i), g))"

definition interleaved :: "u32 list \<Rightarrow> gpu \<Rightarrow> (u32 \<Rightarrow> invocation) \<times> gpu" where
  "interleaved turns g = foldl turn (start, g) turns"

fun steps :: "nat \<Rightarrow> invocation \<times> gpu \<Rightarrow> invocation \<times> gpu" where
  "steps 0 s = s"
| "steps (Suc n) s = steps n (step (fst s) (snd s))"

section \<open>Auxiliary definitions for the proofs\<close>

text \<open>
  The ball after integration and wall reflection (lines 26-56), with the two hit flags:
  the part of the loop body before the split logic.
\<close>

definition reflected :: "canvas \<Rightarrow> ball \<Rightarrow> ball \<times> bool \<times> bool" where
  "reflected cv b0 =
     (let (b, hitX) = bounceX cv (integrate b0); (b, hitY) = bounceY cv b in (b, hitX, hitY))"

text \<open>A ball lies within the arena: it crosses no wall.\<close>

definition within_arena :: "canvas \<Rightarrow> ball \<Rightarrow> bool" where
  "within_arena cv b \<longleftrightarrow>
     radius b \<le> x b \<and> x b \<le> width cv - radius b \<and> radius b \<le> y b \<and> y b \<le> height cv - radius b"

text \<open>
  The ball an iteration leaves when it is the first of its call and the cap leaves room
  (\<open>newBalls\<close> is empty and \<open>balls.length < maxBalls\<close>): it depends on the canvas and
  the split ratio only. \<open>solo_step\<close> also counts the splits of the ball.
\<close>

definition solo :: "canvas \<Rightarrow> real \<Rightarrow> ball \<Rightarrow> ball" where
  "solo cv sr b =
     fst (iteration \<lparr>canvas = cv, maxBalls = 1, splitRatio = sr, balls = []\<rparr> (const_stream 0) b ([], 0))"

definition solo_step :: "canvas \<Rightarrow> real \<Rightarrow> ball \<times> nat \<Rightarrow> ball \<times> nat" where
  "solo_step cv sr s =
     (solo cv sr (fst s), if justSplit (solo cv sr (fst s)) then Suc (snd s) else snd s)"

text \<open>Scenario A: an 800 x 600 arena, cap 10, split ratio 0.8, the seed of the constructor.\<close>

definition arenaA :: canvas where
  "arenaA = \<lparr>width = 800, height = 600\<rparr>"

definition seedA :: ball where
  "seedA = \<lparr>x = 400, y = 300, vx = 8, vy = - 6, radius = 60, color = 0xFF4444, justSplit = False\<rparr>"

definition scenarioA :: jsbackend where
  "scenarioA = \<lparr>canvas = arenaA, maxBalls = 10, splitRatio = 0.8, balls = [seedA]\<rparr>"

text \<open>
  Two states of scenario A: the seed one tick before its first wall impact (the state after
  40 ticks), and the seed one tick before a hit of the right and the top wall at once.
\<close>

definition wallA :: jsbackend where
  "wallA = scenarioA\<lparr>balls := [seedA\<lparr>x := 720, y := 60\<rparr>]\<rparr>"


text \<open>The colours of a list of balls, each once, in the order of their first ball.\<close>

definition colors_of :: "ball list \<Rightarrow> int list" where
  "colors_of bs = rev (remdups (rev (map color bs)))"

text \<open>
  The ball an invocation of the shader has after integration and reflection (lines 43-73),
  with the two hit flags; a property of all live balls of the GPU state (the slots below
  \<open>ball_count\<close>); a ball of the GPU state lies within the arena.
\<close>

definition physics :: "Config \<Rightarrow> gball \<Rightarrow> gball \<times> bool \<times> bool" where
  "physics cfg ball0 =
     (let ball = ball0\<lparr>just_split := 0\<rparr>;
          ball = ball\<lparr>ball_pos := (fst (ball_pos ball) + fst (ball_vel ball),
                                   snd (ball_pos ball) + snd (ball_vel ball))\<rparr>;
          (ball, hit_x) = bounce_x cfg ball;
          (ball, hit_y) = bounce_y cfg ball
      in (ball, hit_x, hit_y))"

definition all_live :: "(gball \<Rightarrow> bool) \<Rightarrow> gpu \<Rightarrow> bool" where
  "all_live P g \<longleftrightarrow>
     (\<forall>i. i < unat (ball_count g) \<and> i < length (balls_buffer g) \<longrightarrow> P (balls_buffer g ! i))"

definition ball_within :: "Config \<Rightarrow> gball \<Rightarrow> bool" where
  "ball_within cfg b \<longleftrightarrow>
     ball_radius b \<le> fst (ball_pos b) \<and> fst (ball_pos b) \<le> config_width cfg - ball_radius b \<and>
     ball_radius b \<le> snd (ball_pos b) \<and> snd (ball_pos b) \<le> config_height cfg - ball_radius b"

text \<open>
  The WebGPU backend of a 120 x 600 canvas with cap 10 and split ratio 0.8 after
  \<open>initBuffers\<close> (the seed touches both side walls), its GPU state, and the same backend
  in JavaScript.
\<close>

definition narrow :: webgpubackend where
  "narrow = initBuffers \<lparr>gpu_canvas = \<lparr>width = 120, height = 600\<rparr>, gpu_maxBalls = 10, gpu_splitRatio = 0.8,
     ballCount = 1, device = None\<rparr>"

definition g0 :: gpu where
  "g0 = \<lparr>balls_buffer =
           (replicate 10 zero_ball)
             [0 := \<lparr>ball_pos = (60, 300), ball_vel = (8.0, - 6.0),
                     ball_radius = 60.0, ball_color = 0xFF4444, just_split = 0, padding = 0\<rparr>],
         config = \<lparr>config_width = 120, config_height = 600,
                    max_balls = 10, split_ratio = 0.8\<rparr>,
         ball_count = 1\<rparr>"

text \<open>
  The GPU states the first two dispatches of that backend pass through when the invocations
  run in index order: after invocation 0 and after invocation 1 of the first dispatch, and
  after invocations 0, 1 and 2 of the second. The fractions are what \<open>random32\<close>
  returns for the seeds of the invocations 0 and 1.
\<close>

definition first_0 :: gpu where
  "first_0 =
     \<lparr>balls_buffer =
       [\<lparr>ball_pos = (60, 294),
         ball_vel = (- 8, - 6),
         ball_radius = 48, ball_color = 16729156, just_split = 1, padding = 0\<rparr>,
        \<lparr>ball_pos = (60, 294),
         ball_vel = (- (65893788976 / 7158278825), - (45442412107 / 7158278825)),
         ball_radius = 48, ball_color = 7130482, just_split = 1, padding = 0\<rparr>,
        zero_ball, zero_ball, zero_ball, zero_ball, zero_ball, zero_ball, zero_ball, zero_ball],
     config = \<lparr>config_width = 120, config_height = 600, max_balls = 10, split_ratio = 0.8\<rparr>,
     ball_count = 2\<rparr>"

definition first_1 :: gpu where
  "first_1 =
     \<lparr>balls_buffer =
       [\<lparr>ball_pos = (60, 294),
         ball_vel = (- 8, - 6),
         ball_radius = 48, ball_color = 16729156, just_split = 1, padding = 0\<rparr>,
        \<lparr>ball_pos = (363602940524 / 7158278825, 2059091562443 / 7158278825),
         ball_vel = (- (65893788976 / 7158278825), - (45442412107 / 7158278825)),
         ball_radius = 48, ball_color = 7130482, just_split = 0, padding = 0\<rparr>,
        zero_ball, zero_ball, zero_ball, zero_ball, zero_ball, zero_ball, zero_ball, zero_ball],
     config = \<lparr>config_width = 120, config_height = 600, max_balls = 10, split_ratio = 0.8\<rparr>,
     ball_count = 2\<rparr>"

definition second_0 :: gpu where
  "second_0 =
     \<lparr>balls_buffer =
       [\<lparr>ball_pos = (52, 288),
         ball_vel = (- 8, - 6),
         ball_radius = 48, ball_color = 16729156, just_split = 0, padding = 0\<rparr>,
        \<lparr>ball_pos = (363602940524 / 7158278825, 2059091562443 / 7158278825),
         ball_vel = (- (65893788976 / 7158278825), - (45442412107 / 7158278825)),
         ball_radius = 48, ball_color = 7130482, just_split = 0, padding = 0\<rparr>,
        zero_ball, zero_ball, zero_ball, zero_ball, zero_ball, zero_ball, zero_ball, zero_ball],
     config = \<lparr>config_width = 120, config_height = 600, max_balls = 10, split_ratio = 0.8\<rparr>,
     ball_count = 2\<rparr>"

definition second_1 :: gpu where
  "second_1 =
     \<lparr>balls_buffer =
       [\<lparr>ball_pos = (52, 288),
         ball_vel = (- 8, - 6),
         ball_radius = 48, ball_color = 16729156, just_split = 0, padding = 0\<rparr>,
        \<lparr>ball_pos = (48, 2013649150336 / 7158278825),
         ball_vel = (65893788976 / 7158278825, - (45442412107 / 7158278825)),
         ball_radius = 192 / 5, ball_color = 7130482, just_split = 1, padding = 0\<rparr>,
        \<lparr>ball_pos = (48, 2013649150336 / 7158278825),
         ball_vel = (5251463630764196832 / 602834773369922125, - (10642115668354751147 / 1808504320109766375)),
         ball_radius = 192 / 5, ball_color = 1188359, just_split = 1, padding = 0\<rparr>,
        zero_ball, zero_ball, zero_ball, zero_ball, zero_ball, zero_ball, zero_ball],
     config = \<lparr>config_width = 120, config_height = 600, max_balls = 10, split_ratio = 0.8\<rparr>,
     ball_count = 3\<rparr>"

definition second_2 :: gpu where
  "second_2 =
     \<lparr>balls_buffer =
       [\<lparr>ball_pos = (52, 288),
         ball_vel = (- 8, - 6),
         ball_radius = 48, ball_color = 16729156, just_split = 0, padding = 0\<rparr>,
        \<lparr>ball_pos = (48, 2013649150336 / 7158278825),
         ball_vel = (65893788976 / 7158278825, - (45442412107 / 7158278825)),
         ball_radius = 192 / 5, ball_color = 7130482, just_split = 1, padding = 0\<rparr>,
        \<lparr>ball_pos = (34187532752520458832 / 602834773369922125, 498096545760919264213 / 1808504320109766375),
         ball_vel = (5251463630764196832 / 602834773369922125, - (10642115668354751147 / 1808504320109766375)),
         ball_radius = 192 / 5, ball_color = 1188359, just_split = 0, padding = 0\<rparr>,
        zero_ball, zero_ball, zero_ball, zero_ball, zero_ball, zero_ball, zero_ball],
     config = \<lparr>config_width = 120, config_height = 600, max_balls = 10, split_ratio = 0.8\<rparr>,
     ball_count = 3\<rparr>"

definition narrowJS :: jsbackend where
  "narrowJS = \<lparr>canvas = \<lparr>width = 120, height = 600\<rparr>, maxBalls = 10, splitRatio = 0.8,
     balls = [\<lparr>x = 60, y = 300, vx = 8, vy = - 6, radius = 60, color = 0xFF4444, justSplit = False\<rparr>]\<rparr>"

text \<open>
  Two backends for the two ways of drawing: 10001 balls of two colours, the second colour
  on the second ball only, and the first two of these balls alone.
\<close>

definition crowdB :: jsbackend where
  "crowdB = scenarioA\<lparr>balls :=
      seedA # \<lparr>x = 10, y = 20, vx = 1, vy = 1, radius = 2, color = 0x00FF00, justSplit = False\<rparr>
      # replicate 9999 \<lparr>x = 100, y = 50, vx = 8, vy = - 6, radius = 5, color = 0xFF4444, justSplit = True\<rparr>\<rparr>"

definition pairB :: jsbackend where
  "pairB = scenarioA\<lparr>balls :=
      [seedA, \<lparr>x = 10, y = 20, vx = 1, vy = 1, radius = 2, color = 0x00FF00, justSplit = False\<rparr>]\<rparr>"

text \<open>
  A device state on a 2765 x 769 canvas with 298 live balls, the last of them (index 297)
  one step from the right wall and free to split.
\<close>

definition wide :: gpu where
  "wide = \<lparr>balls_buffer =
       replicate 297 \<lparr>ball_pos = (1382.5, 384.5), ball_vel = (8, - 6), ball_radius = 60,
                       ball_color = 0xFF4444, just_split = 0, padding = 0\<rparr>
       @ [\<lparr>ball_pos = (2750, 400), ball_vel = (8, - 6), ball_radius = 10,
           ball_color = 0xFF4444, just_split = 0, padding = 0\<rparr>]
       @ replicate 702 zero_ball,
     config = \<lparr>config_width = 2765, config_height = 769, max_balls = 1000, split_ratio = 0.8\<rparr>,
     ball_count = 298\<rparr>"

text \<open>
  A schedule of the 64 invocations of the first dispatch on the 120 x 600 canvas in which
  invocation 1 reads \<open>ball_count\<close> after invocation 0 has added its child to it, and reads
  and writes slot 1 around the write of the child: invocation 0 takes four steps (up to
  the \<open>atomicAdd\<close>), invocation 1 two (\<open>atomicLoad\<close>, read of slot 1), invocation 0 its last
  two (the child, the parent), invocation 1 its last (slot 1), and the others return at
  once. \<open>parent48\<close> is the seed after its split, \<open>raced\<close> the GPU state at the end.
\<close>

definition race :: "u32 list" where
  "race = [0, 0, 0, 0, 1, 1, 0, 0, 1] @ map word_of_nat [2 ..< 64]"

definition parent48 :: gball where
  "parent48 = \<lparr>ball_pos = (60, 294), ball_vel = (- 8, - 6), ball_radius = 48, ball_color = 16729156,
                just_split = 1, padding = 0\<rparr>"

definition raced :: gpu where
  "raced = first_0\<lparr>balls_buffer := (balls_buffer first_0)[1 := zero_ball]\<rparr>"

text \<open>
  The invocations that have added 1 to \<open>ball_count\<close> beyond the cap (line 90) and have not
  yet taken it back (line 113).
\<close>

definition pending :: "(u32 \<Rightarrow> invocation) \<Rightarrow> u32 set" where
  "pending invs = {idx. pc (invs idx) = AtRollback}"

section \<open>The loop of update\<close>

lemma iteration_reflected:
  "iteration B rnd b0 (nb, k) =
     (case reflected (canvas B) b0 of (p, hitX, hitY) \<Rightarrow>
        if (hitX \<or> hitY) \<and> \<not> justSplit b0 then
          if radius p * splitRatio B \<ge> 1 \<and> real (length (balls B)) + real (length nb) < maxBalls B then
            (p\<lparr> radius := radius p * splitRatio B, justSplit := True \<rparr>,
             nb @ [fst (newBall rnd k (p\<lparr> radius := radius p * splitRatio B, justSplit := True \<rparr>) (radius p * splitRatio B) hitX hitY)],
             snd (newBall rnd k (p\<lparr> radius := radius p * splitRatio B, justSplit := True \<rparr>) (radius p * splitRatio B) hitX hitY))
          else (p\<lparr> radius := max (radius p) 1 \<rparr>, nb, k)
        else (p, nb, k))"
  by (simp add: iteration_def reflected_def Let_def split: prod.splits)

lemma reflected_radius: "reflected cv b0 = (p, hx, hy) \<Longrightarrow> radius p = radius b0 \<and> justSplit p = False \<and> color p = color b0"
  by (auto simp: reflected_def integrate_def bounceX_def bounceY_def Let_def split: prod.splits if_splits)

lemma loop_Cons:
  "loop B rnd (b # bs) acc =
     (fst (iteration B rnd b acc) # fst (loop B rnd bs (snd (iteration B rnd b acc))),
      snd (loop B rnd bs (snd (iteration B rnd b acc))))"
  by (simp add: Let_def split: prod.splits)

lemma loop_length: "length (fst (loop B rnd bs acc)) = length bs"
  by (induction bs arbitrary: acc) (simp_all add: loop_Cons del: loop.simps(2))

text \<open>What one iteration does to the accumulator.\<close>

lemma iteration_acc:
  "fst (snd (iteration B rnd b0 (nb, k))) = nb \<or>
   (\<exists>c. fst (snd (iteration B rnd b0 (nb, k))) = nb @ [c] \<and>
        real (length (balls B)) + real (length nb) < maxBalls B)"
  by (simp add: iteration_reflected split: prod.splits)

lemma loop_acc_bound:
  "length nb \<le> length (fst (snd (loop B rnd bs (nb, k)))) \<and>
   int (length (balls B)) + int (length (fst (snd (loop B rnd bs (nb, k)))))
     \<le> max (int (length (balls B)) + int (length nb)) \<lceil>maxBalls B\<rceil>"
proof (induction bs arbitrary: nb k)
  case Nil
  show ?case by simp
next
  case (Cons b bs)
  obtain nb' k' where it: "snd (iteration B rnd b (nb, k)) = (nb', k')"
    by (cases "snd (iteration B rnd b (nb, k))")
  have step: "nb' = nb \<or> (\<exists>c. nb' = nb @ [c] \<and> int (length (balls B)) + int (length nb) < \<lceil>maxBalls B\<rceil>)"
    using iteration_acc [of B rnd b nb k] it by (auto simp: less_ceiling_iff)
  from Cons.IH [of nb' k'] step show ?case
    by (auto simp: loop_Cons it simp del: loop.simps(2))
qed


lemma newBall_eq:
  "newBall rnd k b r hx hy =
     (\<lparr> x = x b, y = y b,
         vx = vx b * (0.8 + rnd k * 0.4) + (if hy then (rnd (k + (if hx then 3 else 2)) - 0.5) * 2 else 0),
         vy = vy b * (0.8 + rnd k * 0.4) + (if hx then (rnd (k + 2) - 0.5) * 2 else 0),
         radius = r, color = \<lfloor>rnd (k + 1) * 0xFFFFFF\<rfloor>, justSplit = True \<rparr>,
      k + 2 + (if hx then 1 else 0) + (if hy then 1 else 0))"
  by (simp add: newBall_def Let_def numeral_3_eq_3)

lemma reflected_cases:
  obtains p hx hy where "reflected cv b0 = (p, hx, hy)"
  by (cases "reflected cv b0") auto

lemma iteration_radius:
  assumes "1 \<le> radius b0" and "\<forall>c\<in>set nb. 1 \<le> radius c"
  shows "1 \<le> radius (fst (iteration B rnd b0 (nb, k))) \<and>
         (\<forall>c\<in>set (fst (snd (iteration B rnd b0 (nb, k)))). 1 \<le> radius c)"
proof -
  obtain p hx hy where r: "reflected (canvas B) b0 = (p, hx, hy)"
    by (rule reflected_cases)
  then have "radius p = radius b0"
    by (simp add: reflected_radius)
  with assms r show ?thesis
    by (simp add: iteration_reflected newBall_eq)
qed

lemma loop_radius:
  assumes "\<forall>b\<in>set bs. 1 \<le> radius b" and "\<forall>c\<in>set nb. 1 \<le> radius c"
  shows "(\<forall>b\<in>set (fst (loop B rnd bs (nb, k))). 1 \<le> radius b) \<and>
         (\<forall>c\<in>set (fst (snd (loop B rnd bs (nb, k)))). 1 \<le> radius c)"
  using assms
proof (induction bs arbitrary: nb k)
  case Nil
  then show ?case by simp
next
  case (Cons b bs)
  obtain b' nb' k' where it: "iteration B rnd b (nb, k) = (b', nb', k')"
    by (cases "iteration B rnd b (nb, k)")
  have "1 \<le> radius b' \<and> (\<forall>c\<in>set nb'. 1 \<le> radius c)"
    using iteration_radius [of b nb B rnd k] Cons.prems it by simp
  with Cons.IH [of nb' k'] Cons.prems show ?case
    by (simp add: loop_Cons it del: loop.simps(2))
qed

lemma iteration_radius_cases:
  "radius (fst (iteration B rnd b0 (nb, k))) = radius b0 * splitRatio B \<and> 1 \<le> radius b0 * splitRatio B
   \<or> radius (fst (iteration B rnd b0 (nb, k))) = max (radius b0) 1
   \<or> radius (fst (iteration B rnd b0 (nb, k))) = radius b0"
proof -
  obtain p hx hy where r: "reflected (canvas B) b0 = (p, hx, hy)"
    by (rule reflected_cases)
  then have "radius p = radius b0"
    by (simp add: reflected_radius)
  with r show ?thesis
    by (simp add: iteration_reflected)
qed

lemma update_eq:
  "update rnd (B, k) =
     (B\<lparr> balls := fst (loop B rnd (balls B) ([], k)) @ fst (snd (loop B rnd (balls B) ([], k))) \<rparr>,
      snd (snd (loop B rnd (balls B) ([], k))))"
  by (simp add: update_def split: prod.splits)

lemma update_config:
  "canvas (fst (update rnd s)) = canvas (fst s) \<and> maxBalls (fst (update rnd s)) = maxBalls (fst s)
   \<and> splitRatio (fst (update rnd s)) = splitRatio (fst s)"
  by (cases s) (simp add: update_eq)

lemma update_count:
  "getBallCount (fst s) \<le> getBallCount (fst (update rnd s)) \<and>
   int (getBallCount (fst (update rnd s))) \<le> max (int (getBallCount (fst s))) \<lceil>maxBalls (fst s)\<rceil>"
proof (cases s)
  case (Pair B k)
  show ?thesis
    using loop_acc_bound [of "[]" B rnd "balls B" k]
    by (simp add: Pair update_eq getBallCount_def loop_length)
qed

lemma ticks_config:
  "canvas (fst (ticks rnd n s)) = canvas (fst s) \<and> maxBalls (fst (ticks rnd n s)) = maxBalls (fst s)
   \<and> splitRatio (fst (ticks rnd n s)) = splitRatio (fst s)"
  by (induction n) (simp_all add: update_config)

lemma ticks_count_bound:
  "int (getBallCount (fst (ticks rnd n s))) \<le> max (int (getBallCount (fst s))) \<lceil>maxBalls (fst s)\<rceil>"
proof (induction n)
  case 0
  show ?case by simp
next
  case (Suc n)
  have "int (getBallCount (fst (ticks rnd (Suc n) s)))
          \<le> max (int (getBallCount (fst (ticks rnd n s)))) \<lceil>maxBalls (fst (ticks rnd n s))\<rceil>"
    using update_count [of "ticks rnd n s" rnd] by simp
  with Suc show ?case by (simp add: ticks_config)
qed

lemma grace_iteration:
  assumes "justSplit b0"
  shows "iteration B rnd b0 (nb, k) = (fst (reflected (canvas B) b0), nb, k)
       \<and> \<not> justSplit (fst (iteration B rnd b0 (nb, k)))
       \<and> radius (fst (iteration B rnd b0 (nb, k))) = radius b0"
proof -
  obtain p hx hy where r: "reflected (canvas B) b0 = (p, hx, hy)"
    by (rule reflected_cases)
  with assms reflected_radius [OF r] show ?thesis
    by (simp add: iteration_reflected)
qed

lemma flag_iff_split:
  "justSplit (fst (iteration B rnd b0 (nb, k))) \<longleftrightarrow> fst (snd (iteration B rnd b0 (nb, k))) \<noteq> nb"
proof -
  obtain p hx hy where r: "reflected (canvas B) b0 = (p, hx, hy)"
    by (rule reflected_cases)
  with reflected_radius [OF r] show ?thesis
    by (simp add: iteration_reflected)
qed

lemma loop_nth:
  "i < length bs \<Longrightarrow>
     \<exists>nb' k'. fst (loop B rnd bs (nb, k)) ! i = fst (iteration B rnd (bs ! i) (nb', k'))"
proof (induction bs arbitrary: nb k i)
  case Nil
  then show ?case by simp
next
  case (Cons b bs)
  obtain nb1 k1 where it: "snd (iteration B rnd b (nb, k)) = (nb1, k1)"
    by (cases "snd (iteration B rnd b (nb, k))")
  show ?case
  proof (cases i)
    case 0
    have "fst (loop B rnd (b # bs) (nb, k)) ! 0 = fst (iteration B rnd ((b # bs) ! 0) (nb, k))"
      by (simp add: loop_Cons del: loop.simps(2))
    with 0 show ?thesis by blast
  next
    case (Suc j)
    with Cons.prems have "j < length bs" by simp
    from Cons.IH [OF this, of nb1 k1] Suc show ?thesis
      by (simp add: loop_Cons it del: loop.simps(2))
  qed
qed

lemma iteration_children_flagged:
  assumes "\<forall>c\<in>set nb. justSplit c"
  shows "\<forall>c\<in>set (fst (snd (iteration B rnd b0 (nb, k)))). justSplit c"
proof -
  obtain p hx hy where r: "reflected (canvas B) b0 = (p, hx, hy)"
    by (rule reflected_cases)
  with assms show ?thesis
    by (simp add: iteration_reflected newBall_eq)
qed

lemma loop_children_flagged:
  assumes "\<forall>c\<in>set nb. justSplit c"
  shows "\<forall>c\<in>set (fst (snd (loop B rnd bs (nb, k)))). justSplit c"
  using assms
proof (induction bs arbitrary: nb k)
  case Nil
  then show ?case by simp
next
  case (Cons b bs)
  obtain b' nb' k' where it: "iteration B rnd b (nb, k) = (b', nb', k')"
    by (cases "iteration B rnd b (nb, k)")
  have "\<forall>c\<in>set nb'. justSplit c"
    using iteration_children_flagged [OF Cons.prems, of B rnd b k] it by simp
  from Cons.IH [OF this, of k'] show ?case
    by (simp add: loop_Cons it del: loop.simps(2))
qed

lemma reflected_within:
  assumes "within_arena cv b0" and "reflected cv b0 = (p, hx, hy)"
  shows "within_arena cv p"
  using assms
  by (auto simp: within_arena_def reflected_def integrate_def bounceX_def bounceY_def Let_def
      split: prod.splits if_splits)

lemma shrink_within:
  assumes "within_arena cv p" and "r \<le> radius p"
  shows "within_arena cv (p\<lparr>radius := r, justSplit := f\<rparr>)"
  using assms by (simp add: within_arena_def)

lemma iteration_within:
  assumes sr: "splitRatio B \<le> 1"
    and b0: "within_arena (canvas B) b0" "1 \<le> radius b0"
    and nb: "\<forall>c\<in>set nb. within_arena (canvas B) c"
  shows "within_arena (canvas B) (fst (iteration B rnd b0 (nb, k))) \<and>
         (\<forall>c\<in>set (fst (snd (iteration B rnd b0 (nb, k)))). within_arena (canvas B) c)"
proof -
  obtain p hx hy where r: "reflected (canvas B) b0 = (p, hx, hy)"
    by (rule reflected_cases)
  have rp: "radius p = radius b0"
    using r by (simp add: reflected_radius)
  have p: "within_arena (canvas B) p"
    using b0(1) r by (rule reflected_within)
  have le: "radius b0 * splitRatio B \<le> radius b0"
    using sr b0(2) by (simp add: mult_left_le)
  have shrunk: "within_arena (canvas B) (p\<lparr>radius := radius b0 * splitRatio B, justSplit := True\<rparr>)"
    using p le by (simp add: shrink_within rp)
  then have child: "within_arena (canvas B)
      (fst (newBall rnd k (p\<lparr>radius := radius b0 * splitRatio B, justSplit := True\<rparr>)
             (radius b0 * splitRatio B) hx hy))"
    by (simp add: newBall_eq within_arena_def)
  have clamp: "p\<lparr>radius := max (radius p) 1\<rparr> = p"
    using b0(2) rp by (simp add: max_def)
  show ?thesis
    using r p shrunk child nb clamp by (simp add: iteration_reflected rp)
qed

lemma loop_within:
  assumes sr: "splitRatio B \<le> 1"
    and bs: "\<forall>b\<in>set bs. within_arena (canvas B) b \<and> 1 \<le> radius b"
    and nb: "\<forall>c\<in>set nb. within_arena (canvas B) c"
  shows "(\<forall>b\<in>set (fst (loop B rnd bs (nb, k))). within_arena (canvas B) b) \<and>
         (\<forall>c\<in>set (fst (snd (loop B rnd bs (nb, k)))). within_arena (canvas B) c)"
  using bs nb
proof (induction bs arbitrary: nb k)
  case Nil
  then show ?case by simp
next
  case (Cons b bs)
  obtain b' nb' k' where it: "iteration B rnd b (nb, k) = (b', nb', k')"
    by (cases "iteration B rnd b (nb, k)")
  have "within_arena (canvas B) b' \<and> (\<forall>c\<in>set nb'. within_arena (canvas B) c)"
    using iteration_within [OF sr, of b nb rnd k] Cons.prems it by simp
  with Cons.IH [of nb' k'] Cons.prems show ?case
    by (simp add: loop_Cons it del: loop.simps(2))
qed

lemma iteration_children:
  "\<exists>cs. fst (snd (iteration B rnd b0 (nb, k))) = nb @ cs"
proof -
  obtain p hx hy where r: "reflected (canvas B) b0 = (p, hx, hy)"
    by (rule reflected_cases)
  then show ?thesis
    by (simp add: iteration_reflected)
qed



section \<open>Scenario A\<close>

lemma iteration_solo:
  assumes "real (length (balls B)) < maxBalls B"
  shows "fst (iteration B rnd b ([], k)) = solo (canvas B) (splitRatio B) b"
proof -
  obtain p hx hy where r: "reflected (canvas B) b = (p, hx, hy)"
    by (rule reflected_cases)
  with assms show ?thesis
    by (simp add: solo_def iteration_reflected)
qed

lemma update_head:
  assumes bs: "balls B = b # bs" and room: "real (length (balls B)) < maxBalls B"
  shows "\<exists>rest. balls (fst (update rnd (B, k))) = solo (canvas B) (splitRatio B) b # rest"
    and "length (balls B) + (if justSplit (solo (canvas B) (splitRatio B) b) then 1 else 0)
           \<le> length (balls (fst (update rnd (B, k))))"
proof -
  let ?it = "iteration B rnd b ([], k)"
  obtain nb1 k1 where it: "snd ?it = (nb1, k1)"
    by (cases "snd ?it")
  have hd: "fst ?it = solo (canvas B) (splitRatio B) b"
    using room by (rule iteration_solo)
  show "\<exists>rest. balls (fst (update rnd (B, k))) = solo (canvas B) (splitRatio B) b # rest"
    by (simp add: update_eq bs loop_Cons hd [unfolded bs] del: loop.simps(2))
  have "justSplit (fst ?it) \<longleftrightarrow> nb1 \<noteq> []"
    using flag_iff_split [of B rnd b "[]" k] it by simp
  then have n1: "(if justSplit (solo (canvas B) (splitRatio B) b) then 1 else 0) \<le> length nb1"
    by (cases nb1) (simp_all add: hd)
  have "length nb1 \<le> length (fst (snd (loop B rnd bs (nb1, k1))))"
    using loop_acc_bound [of nb1 B rnd bs k1] by simp
  with n1 show "length (balls B) + (if justSplit (solo (canvas B) (splitRatio B) b) then 1 else 0)
           \<le> length (balls (fst (update rnd (B, k))))"
    by (simp add: update_eq bs loop_Cons it loop_length del: loop.simps(2))
qed


lemma solo_A_405: "snd ((solo_step arenaA 0.8 ^^ 405) (seedA, 0)) = 9"
  by (simp add: arenaA_def seedA_def eval_nat_numeral solo_step_def solo_def iteration_def integrate_def
      bounceX_def bounceY_def newBall_def Let_def)

lemma solo_step_Suc:
  "(solo_step cv sr ^^ Suc n) s =
     (solo cv sr (fst ((solo_step cv sr ^^ n) s)),
      if justSplit (solo cv sr (fst ((solo_step cv sr ^^ n) s)))
      then Suc (snd ((solo_step cv sr ^^ n) s)) else snd ((solo_step cv sr ^^ n) s))"
  by (simp add: solo_step_def)

lemma scenarioA_config:
  "canvas (fst (ticks rnd n (scenarioA, k))) = arenaA"
  "maxBalls (fst (ticks rnd n (scenarioA, k))) = 10"
  "splitRatio (fst (ticks rnd n (scenarioA, k))) = 0.8"
  using ticks_config [of rnd n "(scenarioA, k)"] by (simp_all add: scenarioA_def)

lemma scenarioA_le_10: "getBallCount (fst (ticks rnd n (scenarioA, k))) \<le> 10"
  using ticks_count_bound [of rnd n "(scenarioA, k)"] by (simp add: scenarioA_def getBallCount_def)

lemma scenarioA_mono:
  "getBallCount (fst (ticks rnd n (scenarioA, k))) \<le> getBallCount (fst (ticks rnd (Suc n) (scenarioA, k)))"
  using update_count [of "ticks rnd n (scenarioA, k)" rnd] by simp

lemma scenarioA_invariant:
  "getBallCount (fst (ticks rnd n (scenarioA, k))) = 10 \<or>
   (\<exists>rest. balls (fst (ticks rnd n (scenarioA, k))) = fst ((solo_step arenaA 0.8 ^^ n) (seedA, 0)) # rest) \<and>
    1 + snd ((solo_step arenaA 0.8 ^^ n) (seedA, 0)) \<le> getBallCount (fst (ticks rnd n (scenarioA, k)))"
proof (induction n)
  case 0
  show ?case by (simp add: scenarioA_def getBallCount_def)
next
  case (Suc n)
  let ?s = "ticks rnd n (scenarioA, k)"
  let ?t = "(solo_step arenaA 0.8 ^^ n) (seedA, 0)"
  show ?case
  proof (cases "getBallCount (fst ?s) = 10")
    case True
    with scenarioA_mono [of rnd n k] scenarioA_le_10 [of rnd "Suc n" k] show ?thesis by simp
  next
    case False
    with Suc obtain rest where bs: "balls (fst ?s) = fst ?t # rest"
      and cnt: "1 + snd ?t \<le> getBallCount (fst ?s)" by blast
    from False scenarioA_le_10 [of rnd n k] have "getBallCount (fst ?s) < 10" by simp
    then have room: "real (length (balls (fst ?s))) < maxBalls (fst ?s)"
      by (simp add: scenarioA_config getBallCount_def)
    have upd: "ticks rnd (Suc n) (scenarioA, k) = update rnd (fst ?s, snd ?s)" by simp
    from update_head [OF bs room, of rnd "snd ?s"] cnt show ?thesis
      unfolding upd solo_step_Suc by (auto simp: scenarioA_config getBallCount_def split: if_splits)
  qed
qed

lemma scenarioA_405: "getBallCount (fst (ticks rnd 405 (scenarioA, k))) = 10"
  using scenarioA_invariant [of rnd 405 k] scenarioA_le_10 [of rnd 405 k]
  unfolding solo_A_405 by linarith

lemma scenarioA_full:
  assumes "405 \<le> n"
  shows "getBallCount (fst (ticks rnd n (scenarioA, k))) = 10"
  using assms
proof (induction n rule: dec_induct)
  case base
  show ?case by (rule scenarioA_405)
next
  case (step n)
  with scenarioA_mono [of rnd n k] scenarioA_le_10 [of rnd "Suc n" k] show ?case by simp
qed


lemma scenarioA_flight:
  "n \<le> 40 \<Longrightarrow>
     ticks rnd n (scenarioA, k) =
       (scenarioA\<lparr>balls := [seedA\<lparr>x := 400 + 8 * real n, y := 300 - 6 * real n\<rparr>]\<rparr>, k)"
proof (induction n)
  case 0
  show ?case by (simp add: scenarioA_def seedA_def)
next
  case (Suc n)
  then have n: "real n \<le> 39" and IH: "ticks rnd n (scenarioA, k) =
       (scenarioA\<lparr>balls := [seedA\<lparr>x := 400 + 8 * real n, y := 300 - 6 * real n\<rparr>]\<rparr>, k)"
    by simp_all
  have "ticks rnd (Suc n) (scenarioA, k) =
          update rnd (scenarioA\<lparr>balls := [seedA\<lparr>x := 400 + 8 * real n, y := 300 - 6 * real n\<rparr>]\<rparr>, k)"
    by (simp only: ticks.simps IH)
  also have "\<dots> = (scenarioA\<lparr>balls := [seedA\<lparr>x := 400 + 8 * real (Suc n), y := 300 - 6 * real (Suc n)\<rparr>]\<rparr>, k)"
    using n
    by (simp add: update_def scenarioA_def seedA_def arenaA_def iteration_def integrate_def
        bounceX_def bounceY_def Let_def algebra_simps)
  finally show ?case .
qed

lemma scenarioA_41:
  "map radius (balls (fst (ticks rnd 41 (scenarioA, k)))) = [48, 48]"
proof -
  have "ticks rnd 41 (scenarioA, k) = update rnd (ticks rnd 40 (scenarioA, k))"
    by (simp add: eval_nat_numeral)
  also have "\<dots> = update rnd (scenarioA\<lparr>balls := [seedA\<lparr>x := 720, y := 60\<rparr>]\<rparr>, k)"
    by (simp only: scenarioA_flight [of 40 rnd k, simplified])
  finally show ?thesis
    by (simp add: update_def scenarioA_def seedA_def arenaA_def iteration_def
        integrate_def bounceX_def bounceY_def newBall_def Let_def)
qed

lemma full_iteration:
  assumes "maxBalls B \<le> real (length (balls B))"
  shows "snd (iteration B rnd b0 (nb, k)) = (nb, k) \<and>
         (radius (fst (iteration B rnd b0 (nb, k))) = max (radius b0) 1 \<or>
          radius (fst (iteration B rnd b0 (nb, k))) = radius b0)"
proof -
  obtain p hx hy where r: "reflected (canvas B) b0 = (p, hx, hy)"
    by (rule reflected_cases)
  with assms reflected_radius [OF r] show ?thesis
    by (simp add: iteration_reflected)
qed


lemma update_radius:
  assumes "\<forall>b\<in>set (balls (fst s)). 1 \<le> radius b"
  shows "\<forall>b\<in>set (balls (fst (update rnd s))). 1 \<le> radius b"
proof (cases s)
  case (Pair B k)
  with assms loop_radius [of "balls B" "[]" B rnd k] show ?thesis
    by (auto simp: update_eq)
qed

lemma ticks_radius:
  assumes "\<forall>b\<in>set (balls (fst s)). 1 \<le> radius b"
  shows "\<forall>b\<in>set (balls (fst (ticks rnd n s))). 1 \<le> radius b"
proof (induction n)
  case 0
  show ?case using assms by simp
next
  case (Suc n)
  then show ?case
    using update_radius [of "ticks rnd n s" rnd] by simp
qed

lemma full_update_radius:
  assumes full: "maxBalls B \<le> real (length (balls B))"
    and rad: "\<forall>b\<in>set (balls B). 1 \<le> radius b"
    and i: "i < length (balls B)"
  shows "radius (balls (fst (update rnd (B, k))) ! i) = max (radius (balls B ! i)) 1"
proof -
  obtain nb k' where it: "fst (loop B rnd (balls B) ([], k)) ! i = fst (iteration B rnd (balls B ! i) (nb, k'))"
    using loop_nth [OF i, of B rnd "[]" k] by auto
  have "balls (fst (update rnd (B, k))) ! i = fst (loop B rnd (balls B) ([], k)) ! i"
    using i by (simp add: update_eq nth_append loop_length)
  with it have eq: "balls (fst (update rnd (B, k))) ! i = fst (iteration B rnd (balls B ! i) (nb, k'))"
    by simp
  have "1 \<le> radius (balls B ! i)"
    using rad i by simp
  then have "max (radius (balls B ! i)) 1 = radius (balls B ! i)"
    by simp
  with full_iteration [OF full, of rnd "balls B ! i" nb k'] show ?thesis
    unfolding eq by auto
qed


section \<open>The colour groups of render\<close>

lemma colors_of_snoc:
  "colors_of (bs @ [b]) = (if color b \<in> color ` set bs then colors_of bs else colors_of bs @ [color b])"
  by (simp add: colors_of_def)

lemma remdups_replicate_append:
  "a \<in> set ys \<Longrightarrow> remdups (replicate n a @ ys) = remdups ys"
  by (induction n) simp_all

lemma colors_of_props: "distinct (colors_of bs) \<and> set (colors_of bs) = color ` set bs"
  by (simp add: colors_of_def)

lemma map_of_keyed:
  "map_of (map (\<lambda>c. (c, f c)) ks) k = (if k \<in> set ks then Some (f k) else None)"
  by (induction ks) auto

lemma update_keyed_in:
  "distinct ks \<Longrightarrow> k \<in> set ks \<Longrightarrow>
     AList.update k v (map (\<lambda>c. (c, f c)) ks) = map (\<lambda>c. (c, if c = k then v else f c)) ks"
  by (induction ks) auto

lemma update_keyed_notin:
  "k \<notin> set ks \<Longrightarrow> AList.update k v (map (\<lambda>c. (c, f c)) ks) = map (\<lambda>c. (c, f c)) ks @ [(k, v)]"
  by (induction ks) auto

lemma update_last_key:
  "k \<notin> fst ` set al \<Longrightarrow> AList.update k v (al @ [(k, w)]) = al @ [(k, v)]"
  by (induction al) auto

lemma map_of_last_key:
  "k \<notin> fst ` set al \<Longrightarrow> map_of (al @ [(k, w)]) k = Some w"
  by (induction al) auto

lemma group_ball_new:
  assumes "color b \<notin> fst ` set colorGroups"
  shows "group_ball colorGroups b = colorGroups @ [(color b, [b])]"
proof -
  have n: "map_of colorGroups (color b) = None"
    using assms by (simp add: map_of_eq_None_iff)
  have u: "AList.update (color b) [] colorGroups = colorGroups @ [(color b, [])]"
    using assms by (induction colorGroups) auto
  show ?thesis
    using assms by (simp add: group_ball_def n u map_of_last_key update_last_key del: map_of_append)
qed

lemma colorGroups_eq:
  "foldl group_ball [] bs = map (\<lambda>c. (c, filter (\<lambda>b. color b = c) bs)) (colors_of bs)"
proof (induction bs rule: rev_induct)
  case Nil
  show ?case by (simp add: colors_of_def)
next
  case (snoc b bs)
  let ?f = "\<lambda>c. filter (\<lambda>b. color b = c) bs"
  show ?case
  proof (cases "color b \<in> color ` set bs")
    case True
    then have k: "color b \<in> set (colors_of bs)" by (simp add: colors_of_props)
    have "group_ball (map (\<lambda>c. (c, ?f c)) (colors_of bs)) b
            = map (\<lambda>c. (c, if c = color b then ?f (color b) @ [b] else ?f c)) (colors_of bs)"
      using k by (simp add: group_ball_def map_of_keyed update_keyed_in colors_of_props)
    also have "\<dots> = map (\<lambda>c. (c, filter (\<lambda>b. color b = c) (bs @ [b]))) (colors_of bs)"
      by auto
    finally show ?thesis
      using True by (simp add: snoc colors_of_snoc)
  next
    case False
    then have k: "color b \<notin> set (colors_of bs)" by (simp add: colors_of_props)
    have e: "filter (\<lambda>b'. color b' = color b) bs = []"
      using False by (metis (mono_tags, lifting) filter_False imageI)
    have "group_ball (map (\<lambda>c. (c, ?f c)) (colors_of bs)) b
            = map (\<lambda>c. (c, ?f c)) (colors_of bs) @ [(color b, [b])]"
      using k by (simp add: group_ball_new image_image)
    also have "\<dots> = map (\<lambda>c. (c, filter (\<lambda>b. color b = c) (bs @ [b]))) (colors_of bs @ [color b])"
      using k by (auto simp: e)
    finally show ?thesis
      using False by (simp add: snoc colors_of_snoc)
  qed
qed


section \<open>Schedules of a dispatch\<close>

lemma main_idle: "ball_count g \<le> idx \<Longrightarrow> main idx g = g"
  by (simp add: main_def)

lemma dispatch_idle: "\<forall>idx\<in>set schedule. ball_count g \<le> idx \<Longrightarrow> dispatch schedule g = g"
  unfolding dispatch_def by (induction schedule) (simp_all add: main_idle)

lemma dispatch_Cons: "dispatch (idx # schedule) g = dispatch schedule (main idx g)"
  by (simp add: dispatch_def)

lemma dispatch_append: "dispatch (s1 @ s2) g = dispatch s2 (dispatch s1 g)"
  by (simp add: dispatch_def)

lemma invocations_64:
  assumes "ballCount W = 1"
  shows "invocations W = [0, 1, 2] @ map word_of_nat [3 ..< 64]"
proof -
  have "[0 ..< 64] = [0, 1, 2] @ [3 ..< (64::nat)]"
    by (simp add: upt_conv_Cons)
  then have "map word_of_nat [0 ..< 64] = map word_of_nat [0, 1, 2] @ (map word_of_nat [3 ..< 64] :: u32 list)"
    by (simp only: map_append)
  moreover have "invocations W = map word_of_nat [0 ..< 64]"
    by (simp add: invocations_def assms)
  ultimately show ?thesis
    by simp
qed

lemma rest_idle:
  assumes "unat (ball_count g) \<le> k" and "m \<le> 2 ^ 32"
  shows "dispatch (map word_of_nat [k ..< m]) g = g"
proof (rule dispatch_idle, rule ballI)
  fix idx :: u32
  assume "idx \<in> set (map word_of_nat [k ..< m])"
  then obtain n :: nat where n: "idx = word_of_nat n" "k \<le> n" "n < m"
    by auto
  with assms(2) have "unat idx = n"
    by (simp add: unat_of_nat)
  with n assms(1) show "ball_count g \<le> idx"
    by (simp add: word_le_nat_alt)
qed

section \<open>Invariants of the compute shader, invocations run one after the other\<close>

text \<open>
  For every schedule of a dispatch whose invocations do not interleave: the counter never
  decreases and never passes \<open>max ball_count max_balls\<close> (\<open>dispatch_count\<close>), the live
  balls keep a radius of at least 1 (\<open>dispatch_floor\<close>) and, with a split ratio of at most
  1, stay within the arena (\<open>dispatch_within\<close>).
\<close>

lemma main_physics:
  "main idx g =
     (if ball_count g \<le> idx then g
      else case physics (config g) (load_ball (balls_buffer g) idx) of (p, hx, hy) \<Rightarrow>
        if (hx \<or> hy) \<and> just_split (load_ball (balls_buffer g) idx) \<noteq> 1 then
          if 1 \<le> ball_radius p * split_ratio (config g) then
            if ball_count g < max_balls (config g) then
              if ball_count g + 1 \<le> max_balls (config g) then
                store_ball idx (p\<lparr>ball_radius := ball_radius p * split_ratio (config g), just_split := 1\<rparr>)
                  (store_ball (ball_count g)
                     (new_ball (idx * 747796405 + u32_of_f32 (config_width (config g) * config_height (config g)))
                        (p\<lparr>ball_radius := ball_radius p * split_ratio (config g), just_split := 1\<rparr>) hx hy)
                     (g\<lparr>ball_count := ball_count g + 1\<rparr>))
              else store_ball idx (p\<lparr>ball_radius := ball_radius p * split_ratio (config g), just_split := 1\<rparr>) g
            else store_ball idx p g
          else store_ball idx (p\<lparr>ball_radius := max (ball_radius p) 1\<rparr>) g
        else store_ball idx p g)"
  by (simp add: main_def physics_def Let_def split: prod.splits)

lemma physics_cases:
  obtains p hx hy where "physics cfg b = (p, hx, hy)"
  by (cases "physics cfg b") auto

lemma physics_radius: "physics cfg b = (p, hx, hy) \<Longrightarrow> ball_radius p = ball_radius b"
  by (auto simp: physics_def bounce_x_def bounce_y_def Let_def split: prod.splits if_splits)

lemma store_ball_fields [simp]:
  "ball_count (store_ball i b g) = ball_count g" "config (store_ball i b g) = config g"
  "length (balls_buffer (store_ball i b g)) = length (balls_buffer g)"
  by (simp_all add: store_ball_def)

lemma succ_no_wrap:
  fixes c m :: u32
  assumes "c < m"
  shows "unat (c + 1) = Suc (unat c)"
proof -
  have "unat m < 2 ^ 32"
    using unsigned_less [of m, where 'a = nat] by simp
  with assms have "unat c + unat (1 :: u32) < 2 ^ LENGTH(32)"
    by (simp add: word_less_nat_alt)
  then have "unat (c + 1) = unat c + unat (1 :: u32)"
    by (simp only: unat_add_lem)
  then show ?thesis by simp
qed

lemma main_count:
  "config (main idx g) = config g \<and>
   length (balls_buffer (main idx g)) = length (balls_buffer g) \<and>
   unat (ball_count g) \<le> unat (ball_count (main idx g)) \<and>
   unat (ball_count (main idx g)) \<le> max (unat (ball_count g)) (unat (max_balls (config g)))"
proof -
  obtain p hx hy where ph: "physics (config g) (load_ball (balls_buffer g) idx) = (p, hx, hy)"
    by (rule physics_cases)
  show ?thesis
    using succ_no_wrap [of "ball_count g" "max_balls (config g)"]
    by (auto simp: main_physics ph word_less_nat_alt)
qed

lemma dispatch_count:
  "config (dispatch schedule g) = config g \<and>
   length (balls_buffer (dispatch schedule g)) = length (balls_buffer g) \<and>
   unat (ball_count g) \<le> unat (ball_count (dispatch schedule g)) \<and>
   unat (ball_count (dispatch schedule g)) \<le> max (unat (ball_count g)) (unat (max_balls (config g)))"
proof (induction schedule arbitrary: g)
  case Nil
  show ?case by (simp add: dispatch_def)
next
  case (Cons idx schedule)
  from Cons [of "main idx g"] main_count [of idx g] show ?case
    by (auto simp: dispatch_Cons max_def)
qed

lemma all_live_store:
  assumes "all_live P g" and "unat i < length (balls_buffer g) \<longrightarrow> P b"
  shows "all_live P (store_ball i b g)"
  using assms by (auto simp: all_live_def store_ball_def nth_list_update)

lemma all_live_reserve:
  assumes "all_live P g" and "ball_count g < max_balls (config g)" and "P b"
  shows "all_live P (store_ball (ball_count g) b (g\<lparr>ball_count := ball_count g + 1\<rparr>))"
  using assms succ_no_wrap [OF assms(2)]
  by (auto simp: all_live_def store_ball_def nth_list_update less_Suc_eq)

lemma new_ball_radius: "ball_radius (new_ball seed b hx hy) = ball_radius b \<and> ball_pos (new_ball seed b hx hy) = ball_pos b"
  by (simp add: new_ball_def Let_def split: prod.splits)

text \<open>
  One invocation keeps a property of all live balls, if the steps of the invocation keep it
  for the ball it processes and hand it on to the child.
\<close>

lemma main_all_live:
  assumes inv: "all_live P g"
    and phys: "\<And>b p hx hy. P b \<Longrightarrow> physics (config g) b = (p, hx, hy) \<Longrightarrow>
          P p \<and> P (p\<lparr>ball_radius := max (ball_radius p) 1\<rparr>) \<and>
          (1 \<le> ball_radius p * split_ratio (config g) \<longrightarrow>
             P (p\<lparr>ball_radius := ball_radius p * split_ratio (config g), just_split := 1\<rparr>))"
    and child: "\<And>seed b hx hy. P b \<Longrightarrow> P (new_ball seed b hx hy)"
  shows "all_live P (main idx g)"
proof (cases "ball_count g \<le> idx")
  case True
  with inv show ?thesis by (simp add: main_idle)
next
  case False
  obtain p hx hy where ph: "physics (config g) (load_ball (balls_buffer g) idx) = (p, hx, hy)"
    by (rule physics_cases)
  let ?r = "ball_radius p * split_ratio (config g)"
  let ?parent = "p\<lparr>ball_radius := ?r, just_split := 1\<rparr>"
  let ?seed = "idx * 747796405 + u32_of_f32 (config_width (config g) * config_height (config g))"
  have p: "P p \<and> P (p\<lparr>ball_radius := max (ball_radius p) 1\<rparr>) \<and> (1 \<le> ?r \<longrightarrow> P ?parent)"
    if "unat idx < length (balls_buffer g)"
  proof -
    from that False inv have "P (load_ball (balls_buffer g) idx)"
      by (simp add: all_live_def load_ball_def word_le_nat_alt)
    then show ?thesis using ph by (rule phys)
  qed
  have plain: "all_live P (store_ball idx p g)"
    using inv by (rule all_live_store) (simp add: p)
  have clamp: "all_live P (store_ball idx (p\<lparr>ball_radius := max (ball_radius p) 1\<rparr>) g)"
    using inv by (rule all_live_store) (simp add: p)
  have shrink: "all_live P (store_ball idx ?parent g)" if "1 \<le> ?r"
    using inv by (rule all_live_store) (simp add: p that)
  have split: "all_live P (store_ball idx ?parent
      (store_ball (ball_count g) (new_ball ?seed ?parent hx hy) (g\<lparr>ball_count := ball_count g + 1\<rparr>)))"
    if r: "1 \<le> ?r" and lt: "ball_count g < max_balls (config g)"
  proof (cases "unat idx < length (balls_buffer g)")
    case True
    with p r have par: "P ?parent" by simp
    then have "P (new_ball ?seed ?parent hx hy)" by (rule child)
    with inv lt have "all_live P (store_ball (ball_count g) (new_ball ?seed ?parent hx hy)
        (g\<lparr>ball_count := ball_count g + 1\<rparr>))"
      by (intro all_live_reserve)
    then show ?thesis
    proof (rule all_live_store)
      show "unat idx < length (balls_buffer (store_ball (ball_count g) (new_ball ?seed ?parent hx hy)
              (g\<lparr>ball_count := ball_count g + 1\<rparr>))) \<longrightarrow> P ?parent"
        using par by simp
    qed
  next
    case out: False
    have nolt: "\<not> unat (ball_count g) < length (balls_buffer g)"
      using out False by (simp add: word_le_nat_alt)
    have "store_ball idx ?parent
      (store_ball (ball_count g) (new_ball ?seed ?parent hx hy) (g\<lparr>ball_count := ball_count g + 1\<rparr>))
        = g\<lparr>ball_count := ball_count g + 1\<rparr>"
      using out nolt by (simp add: store_ball_def)
    moreover have "all_live P (g\<lparr>ball_count := ball_count g + 1\<rparr>)"
      using inv nolt succ_no_wrap [OF lt] by (auto simp: all_live_def less_Suc_eq)
    ultimately show ?thesis by simp
  qed
  show ?thesis
    using False plain clamp shrink split by (simp add: main_physics ph)
qed

lemma physics_props:
  assumes "physics cfg b = (p, hx, hy)"
  shows "ball_radius p = ball_radius b"
    and "ball_within cfg b \<Longrightarrow> ball_within cfg p"
  using assms
  by (auto simp: physics_def bounce_x_def bounce_y_def ball_within_def Let_def split: prod.splits if_splits)

lemma main_floor:
  assumes "all_live (\<lambda>b. 1 \<le> ball_radius b) g"
  shows "all_live (\<lambda>b. 1 \<le> ball_radius b) (main idx g)"
  using assms by (rule main_all_live) (simp_all add: physics_props new_ball_radius)

lemma main_within:
  assumes "split_ratio (config g) \<le> 1"
    and "all_live (\<lambda>b. 1 \<le> ball_radius b \<and> ball_within (config g) b) g"
  shows "all_live (\<lambda>b. 1 \<le> ball_radius b \<and> ball_within (config g) b) (main idx g)"
  using assms(2)
proof (rule main_all_live)
  fix b p hx hy
  assume b: "1 \<le> ball_radius b \<and> ball_within (config g) b" and ph: "physics (config g) b = (p, hx, hy)"
  have rp: "ball_radius p = ball_radius b" and w: "ball_within (config g) p"
    using physics_props [OF ph] b by simp_all
  define q where "q = ball_radius p * split_ratio (config g)"
  have le: "q \<le> ball_radius p"
    using assms(1) b rp by (simp add: q_def mult_left_le)
  have "max (ball_radius p) 1 = ball_radius p"
    using b rp by simp
  then have clamp: "p\<lparr>ball_radius := max (ball_radius p) 1\<rparr> = p"
    by simp
  have keep: "1 \<le> ball_radius p \<and> ball_within (config g) p"
    using b rp w by simp
  have shrink: "1 \<le> q \<longrightarrow> 1 \<le> ball_radius (p\<lparr>ball_radius := q, just_split := 1\<rparr>) \<and>
         ball_within (config g) (p\<lparr>ball_radius := q, just_split := 1\<rparr>)"
    using w le by (simp add: ball_within_def)
  show "(1 \<le> ball_radius p \<and> ball_within (config g) p) \<and>
        (1 \<le> ball_radius (p\<lparr>ball_radius := max (ball_radius p) 1\<rparr>) \<and>
         ball_within (config g) (p\<lparr>ball_radius := max (ball_radius p) 1\<rparr>)) \<and>
        (1 \<le> ball_radius p * split_ratio (config g) \<longrightarrow>
         1 \<le> ball_radius (p\<lparr>ball_radius := ball_radius p * split_ratio (config g), just_split := 1\<rparr>) \<and>
         ball_within (config g) (p\<lparr>ball_radius := ball_radius p * split_ratio (config g), just_split := 1\<rparr>))"
    unfolding clamp using keep shrink [unfolded q_def] by blast
next
  fix seed b hx hy
  assume "1 \<le> ball_radius b \<and> ball_within (config g) b"
  then show "1 \<le> ball_radius (new_ball seed b hx hy) \<and> ball_within (config g) (new_ball seed b hx hy)"
    by (simp add: new_ball_radius ball_within_def)
qed

lemma dispatch_floor:
  assumes "all_live (\<lambda>b. 1 \<le> ball_radius b) g"
  shows "all_live (\<lambda>b. 1 \<le> ball_radius b) (dispatch schedule g)"
  using assms by (induction schedule arbitrary: g) (simp_all add: dispatch_def main_floor)

lemma dispatch_within:
  assumes "split_ratio (config g) \<le> 1"
    and "all_live (\<lambda>b. 1 \<le> ball_radius b \<and> ball_within (config g) b) g"
  shows "all_live (\<lambda>b. 1 \<le> ball_radius b \<and> ball_within (config g) b) (dispatch schedule g)"
  using assms
proof (induction schedule arbitrary: g)
  case Nil
  then show ?case by (simp add: dispatch_def)
next
  case (Cons idx schedule)
  have c: "config (main idx g) = config g"
    using main_count [of idx g] by simp
  from main_within [OF Cons.prems] have "all_live (\<lambda>b. 1 \<le> ball_radius b \<and> ball_within (config (main idx g)) b) (main idx g)"
    by (simp add: c)
  from Cons.IH [OF _ this] Cons.prems(1) show ?case
    by (simp add: dispatch_Cons c)
qed

text \<open>
  The generator \<open>random()\<close> divides by 4294967295.0: it ranges over [0, 1] with both ends,
  and so do the factor and the jitters of a child, over [0.8, 1.2] and [-1, 1].
\<close>

lemma f32_of_u32_range: "0 \<le> f32_of_u32 w \<and> f32_of_u32 w \<le> 4294967295"
proof -
  have "unat w < 2 ^ 32"
    using unsigned_less [of w, where 'a = nat] by simp
  then have "unat w \<le> 4294967295"
    by simp
  then have "real (unat w) \<le> real 4294967295"
    by (simp only: of_nat_le_iff)
  moreover have "real 4294967295 = 4294967295"
    by (rule of_nat_numeral)
  moreover have "0 \<le> real (unat w)"
    by (rule of_nat_0_le_iff)
  ultimately show ?thesis
    unfolding f32_of_u32_def by (simp only: simp_thms)
qed

lemma random32_range: "0 \<le> fst (random32 s) \<and> fst (random32 s) \<le> 1"
  using f32_of_u32_range by (simp add: random32_def Let_def)

lemma new_ball_eq:
  "\<exists>f jx jy col.
     new_ball seed b hx hy =
       b\<lparr>ball_vel := (fst (ball_vel b) * f + (if hy then jx else 0),
                       snd (ball_vel b) * f + (if hx then jy else 0)),
          ball_color := col, just_split := 1\<rparr>
   \<and> 0.8 \<le> f \<and> f \<le> 1.2 \<and> - 1 \<le> jx \<and> jx \<le> 1 \<and> - 1 \<le> jy \<and> jy \<le> 1"
proof -
  obtain r1 s1 where d1: "random32 seed = (r1, s1)" by (cases "random32 seed")
  obtain r2 s2 where d2: "random32 s1 = (r2, s2)" by (cases "random32 s1")
  obtain r3 s3 where d3: "random32 s2 = (r3, s3)" by (cases "random32 s2")
  have r1: "0 \<le> r1 \<and> r1 \<le> 1" using random32_range [of seed] by (simp add: d1)
  have r2: "0 \<le> r2 \<and> r2 \<le> 1" using random32_range [of s1] by (simp add: d2)
  have r3: "0 \<le> r3 \<and> r3 \<le> 1" using random32_range [of s2] by (simp add: d3)
  let ?f = "0.8 + r1 * 0.4"
  let ?jy = "(r2 - 0.5) * 2"
  let ?jx = "((if hx then r3 else r2) - 0.5) * 2"
  have f: "0.8 \<le> ?f \<and> ?f \<le> 1.2" using r1 by simp
  have jy: "- 1 \<le> ?jy \<and> ?jy \<le> 1" using r2 by simp
  have jx: "- 1 \<le> ?jx \<and> ?jx \<le> 1" using r2 r3 by simp
  have "\<exists>col. new_ball seed b hx hy =
       b\<lparr>ball_vel := (fst (ball_vel b) * ?f + (if hy then ?jx else 0),
                       snd (ball_vel b) * ?f + (if hx then ?jy else 0)),
          ball_color := col, just_split := 1\<rparr>"
    by (cases hx; cases hy) (auto simp add: new_ball_def d1 d2 d3 Let_def split: prod.splits)
  with f jy jx show ?thesis by blast
qed

lemma shader_split_effect:
  assumes live: "idx < ball_count g"
    and inb: "unat (ball_count g) < length (balls_buffer g)"
    and ph: "physics (config g) (balls_buffer g ! unat idx) = (p, hit_x, hit_y)"
    and hit: "hit_x \<or> hit_y" and grace: "just_split (balls_buffer g ! unat idx) \<noteq> 1"
    and cand: "1 \<le> ball_radius p * split_ratio (config g)"
    and slot: "ball_count g < max_balls (config g)"
  shows "\<exists>c f jx jy.
           main idx g =
             g\<lparr>ball_count := ball_count g + 1,
                balls_buffer := (balls_buffer g)
                  [unat (ball_count g) := c,
                   unat idx := p\<lparr>ball_radius := ball_radius p * split_ratio (config g), just_split := 1\<rparr>]\<rparr>
         \<and> ball_pos c = ball_pos p \<and> ball_radius c = ball_radius p * split_ratio (config g)
         \<and> just_split c = 1
         \<and> ball_vel c = (fst (ball_vel p) * f + (if hit_y then jx else 0),
                          snd (ball_vel p) * f + (if hit_x then jy else 0))
         \<and> 0.8 \<le> f \<and> f \<le> 1.2 \<and> - 1 \<le> jx \<and> jx \<le> 1 \<and> - 1 \<le> jy \<and> jy \<le> 1"
proof -
  let ?parent = "p\<lparr>ball_radius := ball_radius p * split_ratio (config g), just_split := 1\<rparr>"
  let ?seed = "idx * 747796405 + u32_of_f32 (config_width (config g) * config_height (config g))"
  have lt: "unat idx < unat (ball_count g)"
    using live by (simp add: word_less_nat_alt)
  with inb have inb': "unat idx < length (balls_buffer g)" by simp
  have ld: "load_ball (balls_buffer g) idx = balls_buffer g ! unat idx"
    using inb' by (simp add: load_ball_def)
  have nle: "\<not> ball_count g \<le> idx"
    using live by simp
  have suc: "ball_count g + 1 \<le> max_balls (config g)"
    using slot succ_no_wrap [OF slot] by (simp add: word_le_nat_alt word_less_nat_alt)
  obtain f jx jy col where
    nb: "new_ball ?seed ?parent hit_x hit_y =
       ?parent\<lparr>ball_vel := (fst (ball_vel ?parent) * f + (if hit_y then jx else 0),
                       snd (ball_vel ?parent) * f + (if hit_x then jy else 0)),
          ball_color := col, just_split := 1\<rparr>"
    and rg: "0.8 \<le> f \<and> f \<le> 1.2 \<and> - 1 \<le> jx \<and> jx \<le> 1 \<and> - 1 \<le> jy \<and> jy \<le> 1"
    using new_ball_eq [of ?seed ?parent hit_x hit_y] by blast
  have m: "main idx g =
      g\<lparr>ball_count := ball_count g + 1,
         balls_buffer := (balls_buffer g)
           [unat (ball_count g) := new_ball ?seed ?parent hit_x hit_y, unat idx := ?parent]\<rparr>"
    using nle hit grace cand slot suc inb inb'
    by (simp add: main_physics ld ph store_ball_def)
  show ?thesis
    using m rg by (intro exI [of _ "new_ball ?seed ?parent hit_x hit_y"] exI [of _ f] exI [of _ jx] exI [of _ jy])
      (simp add: nb)
qed

section \<open>Interleaved invocations\<close>

text \<open>
  Six steps in a row are one run of \<open>main\<close> (\<open>main_steps\<close>), so a schedule that lets
  every invocation take its steps in one block is a \<open>dispatch\<close> (\<open>sequential_interleaving\<close>);
  an invocation whose index is not below \<open>ball_count\<close> returns at its first step.
\<close>

lemma step_read:
  "pc i = AtRead \<Longrightarrow> step i g =
     (case physics (config g) (load_ball (balls_buffer g) (global_id i)) of (p, hx, hy) \<Rightarrow>
        if (hx \<or> hy) \<and> just_split (load_ball (balls_buffer g) (global_id i)) \<noteq> 1 then
          if 1 \<le> ball_radius p * split_ratio (config g) then
            (i\<lparr>pc := AtCheck, var_seed := global_id i * 747796405 + u32_of_f32 (config_width (config g) * config_height (config g)),
               var_ball := p, var_hit_x := hx, var_hit_y := hy\<rparr>, g)
          else (i\<lparr>pc := AtStore,
               var_seed := global_id i * 747796405 + u32_of_f32 (config_width (config g) * config_height (config g)),
               var_ball := p\<lparr>ball_radius := max (ball_radius p) 1\<rparr>,
                  var_hit_x := hx, var_hit_y := hy\<rparr>, g)
        else (i\<lparr>pc := AtStore, var_seed := global_id i * 747796405 + u32_of_f32 (config_width (config g) * config_height (config g)),
               var_ball := p, var_hit_x := hx, var_hit_y := hy\<rparr>, g))"
  by (simp add: step_def physics_def Let_def split: prod.splits)

lemma step_other:
  "pc i = AtLoad \<Longrightarrow> step i g =
     (if ball_count g \<le> global_id i then (i\<lparr>pc := Returned\<rparr>, g) else (i\<lparr>pc := AtRead\<rparr>, g))"
  "pc i = AtCheck \<Longrightarrow> step i g =
     (if ball_count g < max_balls (config g) then
        (i\<lparr>pc := AtReserve,
           var_ball := (var_ball i)\<lparr>ball_radius := ball_radius (var_ball i) * split_ratio (config g),
                                    just_split := 1\<rparr>\<rparr>, g)
      else (i\<lparr>pc := AtStore\<rparr>, g))"
  "pc i = AtReserve \<Longrightarrow> step i g =
     (if ball_count g + 1 \<le> max_balls (config g) then
        (i\<lparr>pc := AtStoreChild, var_new_idx := ball_count g\<rparr>, g\<lparr>ball_count := ball_count g + 1\<rparr>)
      else (i\<lparr>pc := AtRollback, var_new_idx := ball_count g\<rparr>, g\<lparr>ball_count := ball_count g + 1\<rparr>))"
  "pc i = AtStoreChild \<Longrightarrow> step i g =
     (i\<lparr>pc := AtStore\<rparr>,
      store_ball (var_new_idx i)
        (new_ball (var_seed i)
           (var_ball i) (var_hit_x i) (var_hit_y i)) g)"
  "pc i = AtRollback \<Longrightarrow> step i g = (i\<lparr>pc := AtStore\<rparr>, g\<lparr>ball_count := ball_count g - 1\<rparr>)"
  "pc i = AtStore \<Longrightarrow> step i g = (i\<lparr>pc := Returned\<rparr>, store_ball (global_id i) (var_ball i) g)"
  "pc i = Returned \<Longrightarrow> step i g = (i, g)"
  by (simp_all add: step_def Let_def)

lemma steps_Suc: "steps (Suc n) (i, g) = steps n (fst (step i g), snd (step i g))"
  by simp

lemma steps_returned: "pc i = Returned \<Longrightarrow> steps n (i, g) = (i, g)"
  by (induction n) (simp_all add: step_other)

lemma steps_store:
  "pc i = AtStore \<Longrightarrow>
     steps (Suc n) (i, g) = (i\<lparr>pc := Returned\<rparr>, store_ball (global_id i) (var_ball i) g)"
  by (simp add: step_other steps_returned)

lemma steps_store_child:
  "pc i = AtStoreChild \<Longrightarrow>
     snd (steps (Suc (Suc n)) (i, g)) =
       store_ball (global_id i) (var_ball i)
         (store_ball (var_new_idx i)
            (new_ball (var_seed i)
               (var_ball i) (var_hit_x i) (var_hit_y i)) g)
     \<and> pc (fst (steps (Suc (Suc n)) (i, g))) = Returned"
  by (simp add: steps_Suc [of "Suc n"] step_other(4) steps_store del: steps.simps)

lemma steps_rollback:
  "pc i = AtRollback \<Longrightarrow>
     snd (steps (Suc (Suc n)) (i, g)) = store_ball (global_id i) (var_ball i) (g\<lparr>ball_count := ball_count g - 1\<rparr>)
     \<and> pc (fst (steps (Suc (Suc n)) (i, g))) = Returned"
  by (simp add: steps_Suc [of "Suc n"] step_other(5) steps_store del: steps.simps)

lemma steps_reserve:
  "pc i = AtReserve \<Longrightarrow>
     snd (steps (Suc (Suc (Suc n))) (i, g)) =
       (if ball_count g + 1 \<le> max_balls (config g) then
          store_ball (global_id i) (var_ball i)
            (store_ball (ball_count g)
               (new_ball (var_seed i)
                  (var_ball i) (var_hit_x i) (var_hit_y i))
               (g\<lparr>ball_count := ball_count g + 1\<rparr>))
        else store_ball (global_id i) (var_ball i) g)
     \<and> pc (fst (steps (Suc (Suc (Suc n))) (i, g))) = Returned"
  by (simp add: steps_Suc [of "Suc (Suc n)"] step_other(3) steps_store_child steps_rollback del: steps.simps)

lemma steps_check:
  "pc i = AtCheck \<Longrightarrow>
     snd (steps (Suc (Suc (Suc (Suc n)))) (i, g)) =
       (if ball_count g < max_balls (config g) then
          if ball_count g + 1 \<le> max_balls (config g) then
            store_ball (global_id i)
              ((var_ball i)\<lparr>ball_radius := ball_radius (var_ball i) * split_ratio (config g), just_split := 1\<rparr>)
              (store_ball (ball_count g)
                 (new_ball (var_seed i)
                    ((var_ball i)\<lparr>ball_radius := ball_radius (var_ball i) * split_ratio (config g), just_split := 1\<rparr>)
                    (var_hit_x i) (var_hit_y i))
                 (g\<lparr>ball_count := ball_count g + 1\<rparr>))
          else store_ball (global_id i)
                 ((var_ball i)\<lparr>ball_radius := ball_radius (var_ball i) * split_ratio (config g), just_split := 1\<rparr>) g
        else store_ball (global_id i) (var_ball i) g)
     \<and> pc (fst (steps (Suc (Suc (Suc (Suc n)))) (i, g))) = Returned"
  by (simp add: steps_Suc [of "Suc (Suc (Suc n))"] step_other(2) steps_reserve steps_store del: steps.simps)

lemma steps_read:
  "pc i = AtRead \<Longrightarrow>
     snd (steps (Suc (Suc (Suc (Suc (Suc n))))) (i, g)) =
       (case physics (config g) (load_ball (balls_buffer g) (global_id i)) of (p, hx, hy) \<Rightarrow>
        if (hx \<or> hy) \<and> just_split (load_ball (balls_buffer g) (global_id i)) \<noteq> 1 then
          if 1 \<le> ball_radius p * split_ratio (config g) then
            if ball_count g < max_balls (config g) then
              if ball_count g + 1 \<le> max_balls (config g) then
                store_ball (global_id i) (p\<lparr>ball_radius := ball_radius p * split_ratio (config g), just_split := 1\<rparr>)
                  (store_ball (ball_count g)
                     (new_ball (global_id i * 747796405 + u32_of_f32 (config_width (config g) * config_height (config g)))
                        (p\<lparr>ball_radius := ball_radius p * split_ratio (config g), just_split := 1\<rparr>) hx hy)
                     (g\<lparr>ball_count := ball_count g + 1\<rparr>))
              else store_ball (global_id i) (p\<lparr>ball_radius := ball_radius p * split_ratio (config g), just_split := 1\<rparr>) g
            else store_ball (global_id i) p g
          else store_ball (global_id i) (p\<lparr>ball_radius := max (ball_radius p) 1\<rparr>) g
        else store_ball (global_id i) p g)
     \<and> pc (fst (steps (Suc (Suc (Suc (Suc (Suc n))))) (i, g))) = Returned"
proof -
  assume a: "pc i = AtRead"
  obtain p hx hy where ph: "physics (config g) (load_ball (balls_buffer g) (global_id i)) = (p, hx, hy)"
    by (rule physics_cases)
  show ?thesis
    by (simp add: steps_Suc [of "Suc (Suc (Suc (Suc n)))"] step_read [OF a] ph steps_check steps_store
        del: steps.simps)
qed

lemma main_steps:
  "snd (steps 6 (start idx, g)) = main idx g \<and> pc (fst (steps 6 (start idx, g))) = Returned"
proof -
  have s: "pc (start idx) = AtLoad" "global_id (start idx) = idx"
    by (simp_all add: start_def)
  have n: "6 = Suc (Suc (Suc (Suc (Suc (Suc 0)))))"
    by simp
  obtain p hx hy where ph: "physics (config g) (load_ball (balls_buffer g) idx) = (p, hx, hy)"
    by (rule physics_cases)
  show ?thesis
    unfolding n
    by (simp add: steps_Suc [of "Suc (Suc (Suc (Suc (Suc 0))))"] step_other(1) s steps_read steps_returned
        main_physics ph del: steps.simps)
qed

lemma turn_eq: "turn (invs, g) idx = (invs(idx := fst (step (invs idx) g)), snd (step (invs idx) g))"
  by (simp add: turn_def split: prod.splits)

lemma turns_replicate:
  "foldl turn (invs, g) (replicate n idx) =
     (invs(idx := fst (steps n (invs idx, g))), snd (steps n (invs idx, g)))"
proof (induction n arbitrary: invs g)
  case 0
  show ?case by simp
next
  case (Suc n)
  show ?case
    by (auto simp: turn_eq Suc)
qed

lemma turns_main:
  assumes "invs idx = start idx"
  shows "snd (foldl turn (invs, g) (replicate 6 idx)) = main idx g
       \<and> (\<forall>j. j \<noteq> idx \<longrightarrow> fst (foldl turn (invs, g) (replicate 6 idx)) j = invs j)"
  using main_steps [of idx g] by (simp add: turns_replicate assms)

lemma blocks_dispatch:
  assumes "distinct schedule" and "\<forall>idx\<in>set schedule. invs idx = start idx"
  shows "snd (foldl turn (invs, g) (concat (map (replicate 6) schedule))) = dispatch schedule g"
  using assms
proof (induction schedule arbitrary: invs g)
  case Nil
  show ?case by (simp add: dispatch_def)
next
  case (Cons idx schedule)
  obtain invs' g' where f: "foldl turn (invs, g) (replicate 6 idx) = (invs', g')"
    by (cases "foldl turn (invs, g) (replicate 6 idx)")
  have m: "g' = main idx g" and k: "\<forall>j. j \<noteq> idx \<longrightarrow> invs' j = invs j"
    using turns_main [of invs idx g] Cons.prems f by simp_all
  have "\<forall>j\<in>set schedule. invs' j = start j"
    using k Cons.prems by auto
  with Cons.IH [of invs' g'] Cons.prems(1) show ?case
    by (simp add: f m dispatch_Cons)
qed

lemma sequential_interleaving:
  "distinct schedule \<Longrightarrow> snd (interleaved (concat (map (replicate 6) schedule)) g) = dispatch schedule g"
  by (simp add: interleaved_def blocks_dispatch)

lemma idle_turns:
  assumes "\<forall>idx\<in>set ids. ball_count g \<le> idx \<and> pc (invs idx) = AtLoad \<and> global_id (invs idx) = idx"
  shows "foldl turn (invs, g) ids = (\<lambda>j. if j \<in> set ids then (invs j)\<lparr>pc := Returned\<rparr> else invs j, g)"
  using assms
proof (induction ids rule: rev_induct)
  case Nil
  show ?case by simp
next
  case (snoc idx ids)
  then have IH: "foldl turn (invs, g) ids = (\<lambda>j. if j \<in> set ids then (invs j)\<lparr>pc := Returned\<rparr> else invs j, g)"
    and a: "ball_count g \<le> idx" "pc (invs idx) = AtLoad" "global_id (invs idx) = idx"
    by simp_all
  show ?case
    using a by (auto simp: IH turn_eq step_other fun_eq_iff)
qed

lemma rest_idle_turns:
  assumes "unat (ball_count g) \<le> k" and "m \<le> 2 ^ 32"
    and "\<forall>n. k \<le> n \<and> n < m \<longrightarrow> invs (word_of_nat n) = start (word_of_nat n)"
  shows "snd (foldl turn (invs, g) (map word_of_nat [k ..< m])) = g
       \<and> (\<forall>n. k \<le> n \<and> n < m \<longrightarrow> pc (fst (foldl turn (invs, g) (map word_of_nat [k ..< m])) (word_of_nat n)) = Returned)
       \<and> (\<forall>j. pc (invs j) = Returned \<longrightarrow> pc (fst (foldl turn (invs, g) (map word_of_nat [k ..< m])) j) = Returned)"
proof -
  have "\<forall>idx\<in>set (map word_of_nat [k ..< m]). ball_count g \<le> idx \<and> pc (invs idx) = AtLoad \<and> global_id (invs idx) = idx"
  proof
    fix idx :: u32
    assume "idx \<in> set (map word_of_nat [k ..< m])"
    then obtain n :: nat where n: "idx = word_of_nat n" "k \<le> n" "n < m"
      by auto
    with assms(2) have "unat idx = n"
      by (simp add: unat_of_nat)
    with n assms(1) have "ball_count g \<le> idx"
      by (simp add: word_le_nat_alt)
    moreover have "invs idx = start idx"
      using assms(3) n by simp
    ultimately show "ball_count g \<le> idx \<and> pc (invs idx) = AtLoad \<and> global_id (invs idx) = idx"
      by (simp add: start_def)
  qed
  from idle_turns [OF this] show ?thesis
    by auto
qed

text \<open>
  The counter under every interleaving: whatever the order of the steps, \<open>ball_count\<close>
  less the pending invocations never falls below its value at the start of the dispatch and
  never passes the larger of that value and \<open>max_balls\<close> (\<open>interleaved_inv\<close>); so it lies
  between the two once the invocations that took a turn have returned
  (\<open>complete_dispatch_count\<close>). The number of turns is bounded so that the counter does not
  wrap.
\<close>

lemma pending_upd:
  "pending (invs(idx := i)) = (if pc i = AtRollback then insert idx (pending invs) else pending invs - {idx})"
  by (auto simp: pending_def)

lemma step_config: "config (snd (step i g)) = config g"
  by (cases "pc i") (simp_all add: step_other step_read split: prod.splits)

lemma step_count:
  assumes "unat (ball_count g) + 1 < 2 ^ 32"
    and "pc i = AtRollback \<longrightarrow> 1 \<le> unat (ball_count g)"
  shows "(pc i = AtReserve \<longrightarrow> unat (ball_count (snd (step i g))) = unat (ball_count g) + 1
            \<and> (pc (fst (step i g)) = AtRollback \<or> pc (fst (step i g)) = AtStoreChild
                  \<and> unat (ball_count g) + 1 \<le> unat (max_balls (config g))))
       \<and> (pc i = AtRollback \<longrightarrow> unat (ball_count (snd (step i g))) = unat (ball_count g) - 1
            \<and> pc (fst (step i g)) \<noteq> AtRollback)
       \<and> (pc i \<noteq> AtReserve \<and> pc i \<noteq> AtRollback \<longrightarrow>
            ball_count (snd (step i g)) = ball_count g \<and> pc (fst (step i g)) \<noteq> AtRollback)"
proof -
  have add: "unat (ball_count g + 1) = unat (ball_count g) + 1"
    using assms(1) by (simp add: unat_add_lem [THEN iffD1])
  have sub: "pc i = AtRollback \<Longrightarrow> unat (ball_count g - 1) = unat (ball_count g) - 1"
    using assms(2) by (simp add: unat_sub word_le_nat_alt)
  show ?thesis
    using add sub
    by (cases "pc i") (auto simp: step_other step_read word_le_nat_alt split: prod.splits)
qed

lemma turn_inv:
  fixes c0 :: nat
  assumes cfg: "config g = cfg0"
    and lo: "c0 + card (pending invs) \<le> unat (ball_count g)"
    and hi: "unat (ball_count g) \<le> max c0 (unat (max_balls cfg0)) + card (pending invs)"
    and n: "unat (ball_count g) \<le> c0 + n" and room: "c0 + Suc n < 2 ^ 32"
  shows "config (snd (turn (invs, g) idx)) = cfg0
       \<and> c0 + card (pending (fst (turn (invs, g) idx))) \<le> unat (ball_count (snd (turn (invs, g) idx)))
       \<and> unat (ball_count (snd (turn (invs, g) idx)))
           \<le> max c0 (unat (max_balls cfg0)) + card (pending (fst (turn (invs, g) idx)))
       \<and> unat (ball_count (snd (turn (invs, g) idx))) \<le> c0 + Suc n"
proof -
  let ?i = "invs idx"
  let ?i' = "fst (step ?i g)"
  let ?g' = "snd (step ?i g)"
  let ?P = "pending invs"
  have fin: "finite ?P" by simp
  have mem: "idx \<in> ?P \<longleftrightarrow> pc ?i = AtRollback"
    by (simp add: pending_def)
  have a1: "unat (ball_count g) + 1 < 2 ^ 32"
    using n room by simp
  have a2: "pc ?i = AtRollback \<longrightarrow> 1 \<le> unat (ball_count g)"
  proof
    assume "pc ?i = AtRollback"
    then have "idx \<in> ?P" by (simp add: mem)
    then have "1 \<le> card ?P"
      using fin by (metis One_nat_def Suc_leI card_gt_0_iff empty_iff)
    with lo show "1 \<le> unat (ball_count g)" by simp
  qed
  note sc = step_count [OF a1 a2]
  have t: "turn (invs, g) idx = (invs(idx := ?i'), ?g')"
    by (rule turn_eq)
  have c: "config ?g' = cfg0"
    by (simp add: step_config cfg)
  consider (reserve) "pc ?i = AtReserve" | (rollback) "pc ?i = AtRollback"
    | (other) "pc ?i \<noteq> AtReserve" "pc ?i \<noteq> AtRollback"
    by blast
  then have "c0 + card (pending (invs(idx := ?i'))) \<le> unat (ball_count ?g')
       \<and> unat (ball_count ?g') \<le> max c0 (unat (max_balls cfg0)) + card (pending (invs(idx := ?i')))
       \<and> unat (ball_count ?g') \<le> c0 + Suc n"
  proof cases
    case reserve
    then have notin: "idx \<notin> ?P" by (simp add: mem)
    from sc reserve have cnt: "unat (ball_count ?g') = unat (ball_count g) + 1"
      and br: "pc ?i' = AtRollback \<or> pc ?i' = AtStoreChild \<and> unat (ball_count g) + 1 \<le> unat (max_balls (config g))"
      by simp_all
    from br show ?thesis
    proof
      assume r: "pc ?i' = AtRollback"
      then have "card (pending (invs(idx := ?i'))) = Suc (card ?P)"
        using notin fin by (simp add: pending_upd)
      with lo hi n cnt show ?thesis by simp
    next
      assume r: "pc ?i' = AtStoreChild \<and> unat (ball_count g) + 1 \<le> unat (max_balls (config g))"
      then have "pending (invs(idx := ?i')) = ?P"
        using notin by (simp add: pending_upd)
      with lo hi n cnt r cfg show ?thesis by simp
    qed
  next
    case rollback
    then have inP: "idx \<in> ?P" by (simp add: mem)
    then have pos: "1 \<le> card ?P"
      using fin by (metis One_nat_def Suc_leI card_gt_0_iff empty_iff)
    from sc rollback have cnt: "unat (ball_count ?g') = unat (ball_count g) - 1"
      and br: "pc ?i' \<noteq> AtRollback"
      by simp_all
    have "card (pending (invs(idx := ?i'))) = card ?P - 1"
      using br inP fin by (simp add: pending_upd)
    with lo hi n cnt pos show ?thesis by (simp add: max_def split: if_splits) linarith+
  next
    case other
    then have notin: "idx \<notin> ?P" by (simp add: mem)
    from sc other have cnt: "ball_count ?g' = ball_count g" and br: "pc ?i' \<noteq> AtRollback"
      by simp_all
    have "pending (invs(idx := ?i')) = ?P"
      using br notin by (simp add: pending_upd)
    with lo hi n cnt show ?thesis by simp
  qed
  with c show ?thesis
    by (simp add: t)
qed

lemma interleaved_inv:
  assumes "unat (ball_count g) + length turns < 2 ^ 32"
  shows "config (snd (interleaved turns g)) = config g
       \<and> unat (ball_count g) + card (pending (fst (interleaved turns g)))
           \<le> unat (ball_count (snd (interleaved turns g)))
       \<and> unat (ball_count (snd (interleaved turns g)))
           \<le> max (unat (ball_count g)) (unat (max_balls (config g))) + card (pending (fst (interleaved turns g)))
       \<and> unat (ball_count (snd (interleaved turns g))) \<le> unat (ball_count g) + length turns"
  using assms
proof (induction turns rule: rev_induct)
  case Nil
  have "pending start = {}"
    by (simp add: pending_def start_def)
  then show ?case
    by (simp add: interleaved_def)
next
  case (snoc idx turns)
  let ?s = "interleaved turns g"
  from snoc have IH: "config (snd ?s) = config g"
      "unat (ball_count g) + card (pending (fst ?s)) \<le> unat (ball_count (snd ?s))"
      "unat (ball_count (snd ?s))
           \<le> max (unat (ball_count g)) (unat (max_balls (config g))) + card (pending (fst ?s))"
      "unat (ball_count (snd ?s)) \<le> unat (ball_count g) + length turns"
    and room: "unat (ball_count g) + Suc (length turns) < 2 ^ 32"
    by simp_all
  have e: "interleaved (turns @ [idx]) g = turn (fst ?s, snd ?s) idx"
    by (simp add: interleaved_def)
  from turn_inv [OF IH room, of idx] show ?case
    unfolding e by simp
qed

lemma interleaved_count:
  assumes "unat (ball_count g) + length turns < 2 ^ 32"
    and "\<forall>idx. pc (fst (interleaved turns g) idx) \<noteq> AtRollback"
  shows "unat (ball_count g) \<le> unat (ball_count (snd (interleaved turns g)))
       \<and> unat (ball_count (snd (interleaved turns g))) \<le> max (unat (ball_count g)) (unat (max_balls (config g)))"
proof -
  have "pending (fst (interleaved turns g)) = {}"
    using assms(2) by (simp add: pending_def)
  with interleaved_inv [OF assms(1)] show ?thesis
    by simp
qed

lemma untouched: "idx \<notin> set turns \<Longrightarrow> fst (foldl turn (invs, g) turns) idx = invs idx"
proof (induction turns rule: rev_induct)
  case Nil
  show ?case by simp
next
  case (snoc j turns)
  then show ?case
    by (simp add: turn_def split: prod.splits)
qed

lemma complete_dispatch_count:
  assumes "unat (ball_count g) + length turns < 2 ^ 32"
    and "\<forall>idx\<in>set turns. pc (fst (interleaved turns g) idx) = Returned"
  shows "unat (ball_count g) \<le> unat (ball_count (snd (interleaved turns g)))
       \<and> unat (ball_count (snd (interleaved turns g))) \<le> max (unat (ball_count g)) (unat (max_balls (config g)))"
proof (rule interleaved_count [OF assms(1)], rule allI)
  fix idx
  show "pc (fst (interleaved turns g) idx) \<noteq> AtRollback"
  proof (cases "idx \<in> set turns")
    case True
    with assms(2) show ?thesis by simp
  next
    case False
    then show ?thesis
      by (simp add: interleaved_def untouched start_def)
  qed
qed

section \<open>Two dispatches in index order, evaluated\<close>

lemma narrow_g0: "device narrow = Some g0"
  by (simp add: narrow_def initBuffers_def g0_def to_uint32_def)

lemmas shader_defs = main_def load_ball_def store_ball_def bounce_x_def bounce_y_def new_ball_def
  random32_def zero_ball_def u32_of_f32_def f32_of_u32_def Let_def

lemmas eval_defs = shader_defs word_le_nat_alt word_less_nat_alt

lemma g0_eq:
  "g0 = \<lparr>balls_buffer =
      [\<lparr>ball_pos = (60, 300), ball_vel = (8, - 6), ball_radius = 60, ball_color = 16729156,
         just_split = 0, padding = 0\<rparr>,
       zero_ball, zero_ball, zero_ball, zero_ball, zero_ball, zero_ball, zero_ball, zero_ball, zero_ball],
     config = \<lparr>config_width = 120, config_height = 600, max_balls = 10, split_ratio = 0.8\<rparr>,
     ball_count = 1\<rparr>"
  by (simp add: g0_def zero_ball_def eval_nat_numeral)

lemma first_dispatch:
  "main 0 g0 = first_0" "main 1 first_0 = first_1" "main 2 first_1 = first_1"
proof -
  show "main 0 g0 = first_0"
    unfolding g0_eq first_0_def by (simp add: eval_defs)
  show "main 1 first_0 = first_1"
    unfolding first_0_def first_1_def by (simp add: eval_defs)
  show "main 2 first_1 = first_1"
    by (simp add: main_idle first_1_def)
qed

lemma second_dispatch:
  "main 0 first_1 = second_0" "main 1 second_0 = second_1" "main 2 second_1 = second_2"
proof -
  show "main 0 first_1 = second_0"
    unfolding first_1_def second_0_def by (simp add: eval_defs)
  show "main 1 second_0 = second_1"
    unfolding second_0_def second_1_def by (simp add: eval_defs)
  show "main 2 second_1 = second_2"
    unfolding second_1_def second_2_def by (simp add: eval_defs)
qed

lemma in_order_64:
  assumes "ballCount W = 1" and "device W = Some g" and "unat (ball_count (main 2 (main 1 (main 0 g)))) \<le> 3"
  shows "update_in_order W = Some (W\<lparr>device := Some (main 2 (main 1 (main 0 g)))\<rparr>)"
  using assms rest_idle [of "main 2 (main 1 (main 0 g))" 3 64]
  by (simp add: update_in_order_def invocations_64 dispatch_append dispatch_Cons)

lemma tick1: "update_in_order narrow = Some (narrow\<lparr>device := Some first_1\<rparr>)"
proof -
  have "ballCount narrow = 1"
    by (simp add: narrow_def initBuffers_def)
  moreover have "unat (ball_count (main 2 (main 1 (main 0 g0)))) \<le> 3"
    by (simp add: first_dispatch) (simp add: first_1_def)
  ultimately show ?thesis
    using in_order_64 [OF _ narrow_g0] by (simp add: first_dispatch)
qed

lemma tick2:
  "update_in_order (narrow\<lparr>device := Some first_1\<rparr>) = Some (narrow\<lparr>device := Some second_2\<rparr>)"
proof -
  have "ballCount (narrow\<lparr>device := Some first_1\<rparr>) = 1"
    by (simp add: narrow_def initBuffers_def)
  moreover have "device (narrow\<lparr>device := Some first_1\<rparr>) = Some first_1"
    by simp
  moreover have "unat (ball_count (main 2 (main 1 (main 0 first_1)))) \<le> 3"
    by (simp add: second_dispatch) (simp add: second_2_def)
  ultimately show ?thesis
    using in_order_64 [of "narrow\<lparr>device := Some first_1\<rparr>" first_1] by (simp add: second_dispatch)
qed


text \<open>
  Invocation 297 on a 2765 x 769 canvas: the seed is \<open>297 * 747796405 + 2126285\<close> modulo
  \<open>2 ^ 32\<close>, and the second call of \<open>random()\<close> returns \<open>4294967295 / 4294967295\<close>.
\<close>

lemma seed_297: "(297 :: u32) * 747796405 + u32_of_f32 (2765 * 769) = 3054326474"
  by (simp add: u32_of_f32_def)

lemma draws_297:
  "random32 3054326474 = (3010318369 / 4294967295, 2222045655)"
  "random32 2222045655 = (1, 515875080)"
  by (simp_all add: random32_def f32_of_u32_def Let_def)

lemma main_297:
  "ball_count (main 297 wide) = 299
   \<and> ball_vel (balls_buffer (main 297 wide) ! 297) = (- 8, - 6)
   \<and> ball_vel (balls_buffer (main 297 wide) ! 298)
       = (- 8 * (0.8 + 3010318369 / 4294967295 * 0.4), - 6 * (0.8 + 3010318369 / 4294967295 * 0.4) + 1)"
  by (simp add: wide_def eval_defs nth_append)


text \<open>
  The schedule \<open>race\<close> on the first dispatch of the 120 x 600 canvas, in its four stages:
  invocation 0 up to its \<open>atomicAdd\<close>; invocation 1 up to its read of slot 1, which is still
  zero; invocation 0 to its end, which writes the child into slot 1; invocation 1 to its
  end, which writes the zero ball it has read over the child.
\<close>

lemma stage_a:
  "steps (Suc (Suc (Suc (Suc 0)))) (start 0, g0) =
     (\<lparr>pc = AtStoreChild, global_id = 0, var_seed = 72000, var_ball = parent48, var_hit_x = True, var_hit_y = False,
       var_new_idx = 1\<rparr>, g0\<lparr>ball_count := 2\<rparr>)"
  unfolding g0_eq
  by (simp add: step_other step_read physics_def start_def parent48_def eval_defs)

lemma stage_b:
  "steps (Suc (Suc 0)) (start 1, g0\<lparr>ball_count := 2\<rparr>) =
     (\<lparr>pc = AtStore, global_id = 1, var_seed = 747868405, var_ball = zero_ball, var_hit_x = False, var_hit_y = False,
       var_new_idx = 0\<rparr>, g0\<lparr>ball_count := 2\<rparr>)"
  unfolding g0_eq
  by (simp add: step_other step_read physics_def start_def eval_defs)

lemma stage_c:
  "steps (Suc (Suc 0)) (\<lparr>pc = AtStoreChild, global_id = 0, var_seed = 72000, var_ball = parent48, var_hit_x = True, var_hit_y = False,
       var_new_idx = 1\<rparr>, g0\<lparr>ball_count := 2\<rparr>) =
     (\<lparr>pc = Returned, global_id = 0, var_seed = 72000, var_ball = parent48, var_hit_x = True, var_hit_y = False,
       var_new_idx = 1\<rparr>, first_0)"
  unfolding g0_eq first_0_def
  by (simp add: step_other parent48_def eval_defs)

lemma stage_d:
  "steps (Suc 0) (\<lparr>pc = AtStore, global_id = 1, var_seed = 747868405, var_ball = zero_ball, var_hit_x = False, var_hit_y = False,
       var_new_idx = 0\<rparr>, first_0) =
     (\<lparr>pc = Returned, global_id = 1, var_seed = 747868405, var_ball = zero_ball, var_hit_x = False, var_hit_y = False,
       var_new_idx = 0\<rparr>, first_0\<lparr>balls_buffer := (balls_buffer first_0)[1 := zero_ball]\<rparr>)"
  unfolding first_0_def
  by (simp add: step_other store_ball_def)

lemma race_eq:
  "race = replicate (Suc (Suc (Suc (Suc 0)))) 0 @ replicate (Suc (Suc 0)) 1 @ replicate (Suc (Suc 0)) 0
          @ replicate (Suc 0) 1 @ map word_of_nat [2 ..< 64]"
  by (simp add: race_def)

lemma small_id:
  fixes n :: nat
  assumes "2 \<le> n" and "n < 64"
  shows "(word_of_nat n :: u32) \<noteq> 0 \<and> (word_of_nat n :: u32) \<noteq> 1"
proof -
  have "unat (word_of_nat n :: u32) = n"
    using assms by (simp add: unat_of_nat)
  with assms show ?thesis
    by auto
qed

lemma race_run:
  "snd (interleaved race g0) = raced
   \<and> (\<forall>n < 64. pc (fst (interleaved race g0) (word_of_nat n)) = Returned)
   \<and> snd (interleaved (take 8 race) g0) = first_0"
proof -
  let ?iA = "\<lparr>pc = Returned, global_id = 0, var_seed = 72000, var_ball = parent48, var_hit_x = True, var_hit_y = False,
       var_new_idx = 1\<rparr>"
  let ?iB = "\<lparr>pc = Returned, global_id = 1, var_seed = 747868405, var_ball = zero_ball, var_hit_x = False, var_hit_y = False,
       var_new_idx = 0\<rparr>"
  let ?invs = "start(0 := ?iA, 1 := ?iB)"
  have head: "foldl turn (start, g0)
          (replicate (Suc (Suc (Suc (Suc 0)))) 0 @ replicate (Suc (Suc 0)) 1 @ replicate (Suc (Suc 0)) 0
           @ replicate (Suc 0) 1) = (?invs, raced)"
    unfolding foldl_append turns_replicate
    by (simp add: stage_a stage_b stage_c stage_d raced_def fun_upd_twist del: steps.simps replicate.simps)
  have eight: "foldl turn (start, g0)
          (replicate (Suc (Suc (Suc (Suc 0)))) 0 @ replicate (Suc (Suc 0)) 1 @ replicate (Suc (Suc 0)) 0)
           = (start(0 := ?iA, 1 := ?iB\<lparr>pc := AtStore\<rparr>), first_0)"
    unfolding foldl_append turns_replicate
    by (simp add: stage_a stage_b stage_c fun_upd_twist del: steps.simps replicate.simps)
  have c: "unat (ball_count raced) \<le> 2"
    by (simp add: raced_def first_0_def)
  have fresh: "\<forall>n. 2 \<le> n \<and> n < 64 \<longrightarrow> ?invs (word_of_nat n) = start (word_of_nat n)"
    using small_id by simp
  have r: "snd (foldl turn (?invs, raced) (map word_of_nat [2 ..< 64])) = raced
       \<and> (\<forall>n. 2 \<le> n \<and> n < 64 \<longrightarrow> pc (fst (foldl turn (?invs, raced) (map word_of_nat [2 ..< 64])) (word_of_nat n)) = Returned)
       \<and> (\<forall>j. pc (?invs j) = Returned \<longrightarrow> pc (fst (foldl turn (?invs, raced) (map word_of_nat [2 ..< 64])) j) = Returned)"
    by (rule rest_idle_turns [OF c _ fresh]) simp
  have all: "interleaved race g0 = foldl turn (?invs, raced) (map word_of_nat [2 ..< 64])"
    unfolding interleaved_def race_eq using head by (simp only: foldl_append append_assoc [symmetric])
  have "\<forall>n < 64. pc (fst (interleaved race g0) (word_of_nat n)) = Returned"
  proof (intro allI impI)
    fix n :: nat
    assume n: "n < 64"
    consider "n = 0" | "n = 1" | "2 \<le> n" by linarith
    then show "pc (fst (interleaved race g0) (word_of_nat n)) = Returned"
    proof cases
      case 1
      have "pc (?invs 0) = Returned" by simp
      with r show ?thesis unfolding all 1 by simp
    next
      case 2
      have "pc (?invs 1) = Returned" by simp
      with r show ?thesis unfolding all 2 by simp
    next
      case 3
      with r n show ?thesis unfolding all by simp
    qed
  qed
  moreover have "take 8 race = replicate (Suc (Suc (Suc (Suc 0)))) 0 @ replicate (Suc (Suc 0)) 1 @ replicate (Suc (Suc 0)) 0"
    by (simp add: race_def)
  ultimately show ?thesis
    using r eight by (simp add: all) (simp add: interleaved_def)
qed


section \<open>The grace flag and the children of a call, in JavaScript\<close>

lemma grace_next_tick:
  assumes "i < length (balls B)" and "justSplit (balls B ! i)"
  shows "\<not> justSplit (balls (fst (update rnd (B, k))) ! i)
       \<and> radius (balls (fst (update rnd (B, k))) ! i) = radius (balls B ! i)"
proof -
  obtain nb k' where it: "fst (loop B rnd (balls B) ([], k)) ! i = fst (iteration B rnd (balls B ! i) (nb, k'))"
    using loop_nth [OF assms(1), of B rnd "[]" k] by auto
  have "balls (fst (update rnd (B, k))) ! i = fst (loop B rnd (balls B) ([], k)) ! i"
    using assms(1) by (simp add: update_eq nth_append loop_length)
  with it have "balls (fst (update rnd (B, k))) ! i = fst (iteration B rnd (balls B ! i) (nb, k'))"
    by simp
  then show ?thesis
    using grace_iteration [OF assms(2), of B rnd nb k'] by metis
qed

lemma children_appended:
  "\<exists>bs' newBalls.
      balls (fst (update rnd (B, k))) = bs' @ newBalls
    \<and> length bs' = length (balls B)
    \<and> (\<forall>i<length (balls B). \<exists>nb k'. bs' ! i = fst (iteration B rnd (balls B ! i) (nb, k')))
    \<and> (\<forall>j<length newBalls. balls (fst (update rnd (B, k))) ! (length (balls B) + j) = newBalls ! j)
    \<and> (\<forall>c\<in>set newBalls. justSplit c)"
proof -
  let ?bs = "fst (loop B rnd (balls B) ([], k))"
  let ?nb = "fst (snd (loop B rnd (balls B) ([], k)))"
  have 1: "balls (fst (update rnd (B, k))) = ?bs @ ?nb"
    by (simp add: update_eq)
  have 2: "length ?bs = length (balls B)"
    by (rule loop_length)
  have 3: "\<forall>i<length (balls B). \<exists>nb k'. ?bs ! i = fst (iteration B rnd (balls B ! i) (nb, k'))"
    using loop_nth [of _ "balls B" B rnd "[]" k] by blast
  have 4: "\<forall>j<length ?nb. balls (fst (update rnd (B, k))) ! (length (balls B) + j) = ?nb ! j"
    by (simp add: 1 nth_append 2)
  have 5: "\<forall>c\<in>set ?nb. justSplit c"
    using loop_children_flagged [of "[]" B rnd "balls B" k] by simp
  from 1 2 3 4 5 show ?thesis by blast
qed

lemma loop_all_grace:
  assumes "\<forall>b\<in>set bs. justSplit b"
  shows "snd (loop B rnd bs (nb, k)) = (nb, k)"
  using assms
proof (induction bs)
  case Nil
  show ?case by simp
next
  case (Cons b bs)
  then have "snd (iteration B rnd b (nb, k)) = (nb, k)"
    using grace_iteration [of b B rnd nb k] by simp
  with Cons show ?case
    by (simp add: loop_Cons del: loop.simps(2))
qed

lemma update_all_grace:
  assumes "\<forall>b\<in>set (balls B). justSplit b"
  shows "length (balls (fst (update rnd (B, k)))) = length (balls B)"
  using loop_all_grace [OF assms, of B rnd "[]" k]
  by (simp add: update_eq loop_length)

lemma narrowJS_tick1:
  "map justSplit (balls (fst (update rnd (narrowJS, k)))) = [True, True]
   \<and> map x (balls (fst (update rnd (narrowJS, k)))) = [60, 60]
   \<and> map y (balls (fst (update rnd (narrowJS, k)))) = [294, 294]"
  by (simp add: narrowJS_def update_def iteration_def integrate_def bounceX_def bounceY_def
      newBall_def Let_def)

lemma narrowJS_tick2:
  "length (balls (fst (ticks rnd 2 (narrowJS, k)))) = 2"
proof -
  let ?s = "update rnd (narrowJS, k)"
  have t: "ticks rnd 2 (narrowJS, k) = update rnd (fst ?s, snd ?s)"
    by (simp add: numeral_2_eq_2)
  have "\<forall>v\<in>set (map justSplit (balls (fst ?s))). v"
    by (simp add: narrowJS_tick1)
  then have "\<forall>b\<in>set (balls (fst ?s)). justSplit b"
    by simp
  then have "length (balls (fst (update rnd (fst ?s, snd ?s)))) = length (balls (fst ?s))"
    by (rule update_all_grace)
  also have "\<dots> = length (map justSplit (balls (fst ?s)))"
    by simp
  also have "\<dots> = 2"
    by (simp only: narrowJS_tick1) simp
  finally show ?thesis
    unfolding t .
qed

text \<open>
  The effect of a split in JavaScript, with \<open>Math.random()\<close> a stream of numbers in [0, 1):
  the ball gets the radius \<open>radius * splitRatio\<close> and the flag; exactly one child is pushed,
  at the position of the ball after the reflection, with that radius and the flag, and with
  the velocity of the ball after the reflection times a factor \<open>f = 0.8 + r * 0.4\<close> in
  [0.8, 1.2); after an x hit the child's \<open>vy\<close>, after a y hit its \<open>vx\<close>, gets a jitter
  \<open>(r - 0.5) * 2\<close> in [-1, 1) added.
\<close>

lemma split_effect:
  assumes refl: "reflected (canvas B) b0 = (p, hitX, hitY)"
    and hit: "hitX \<or> hitY" and grace: "\<not> justSplit b0"
    and cand: "1 \<le> radius b0 * splitRatio B"
    and slot: "real (length (balls B)) + real (length newBalls) < maxBalls B"
    and rnd: "\<forall>i. 0 \<le> rnd i \<and> rnd i < 1"
  shows "\<exists>c f jx jy.
           iteration B rnd b0 (newBalls, k) =
             (p\<lparr>radius := radius b0 * splitRatio B, justSplit := True\<rparr>, newBalls @ [c],
              k + 2 + (if hitX then 1 else 0) + (if hitY then 1 else 0))
         \<and> x c = x p \<and> y c = y p \<and> radius c = radius b0 * splitRatio B \<and> justSplit c
         \<and> vx c = vx p * f + (if hitY then jx else 0)
         \<and> vy c = vy p * f + (if hitX then jy else 0)
         \<and> f = 0.8 + rnd k * 0.4 \<and> 0.8 \<le> f \<and> f < 1.2
         \<and> jy = (rnd (k + 2) - 0.5) * 2 \<and> - 1 \<le> jy \<and> jy < 1
         \<and> jx = (rnd (k + (if hitX then 3 else 2)) - 0.5) * 2 \<and> - 1 \<le> jx \<and> jx < 1"
proof -
  have rp: "radius p = radius b0"
    using refl by (simp add: reflected_radius)
  have f: "0.8 \<le> 0.8 + rnd k * 0.4 \<and> 0.8 + rnd k * 0.4 < 1.2"
    using rnd [rule_format, of k] by simp
  have jy: "- 1 \<le> (rnd (k + 2) - 0.5) * 2 \<and> (rnd (k + 2) - 0.5) * 2 < 1"
    using rnd [rule_format, of "k + 2"] by simp
  have jx: "- 1 \<le> (rnd (k + (if hitX then 3 else 2)) - 0.5) * 2
            \<and> (rnd (k + (if hitX then 3 else 2)) - 0.5) * 2 < 1"
    using rnd [rule_format, of "k + (if hitX then 3 else 2)"] by simp
  show ?thesis
    using refl hit grace cand slot f jy jx
    by (simp add: iteration_reflected newBall_eq rp)
qed

lemma split_effect_example:
  "reflected (canvas wallA) (seedA\<lparr>x := 720, y := 60\<rparr>) = (seedA\<lparr>x := 728, y := 60, vy := 6\<rparr>, False, True)
   \<and> justSplit (seedA\<lparr>x := 720, y := 60\<rparr>) = False
   \<and> 1 \<le> radius (seedA\<lparr>x := 720, y := 60\<rparr>) * splitRatio wallA
   \<and> real (length (balls wallA)) + real (length ([] :: ball list)) < maxBalls wallA
   \<and> (\<forall>i. 0 \<le> const_stream (1/2) i \<and> const_stream (1/2) i < 1)
   \<and> (\<exists>c. iteration wallA (const_stream (1/2)) (seedA\<lparr>x := 720, y := 60\<rparr>) ([], 0) =
          (seedA\<lparr>x := 728, y := 60, vy := 6, radius := 48, justSplit := True\<rparr>, [c], 3)
        \<and> x c = 728 \<and> y c = 60 \<and> radius c = 48 \<and> justSplit c \<and> vx c = 8 \<and> vy c = 6)"
proof -
  have r: "reflected (canvas wallA) (seedA\<lparr>x := 720, y := 60\<rparr>) = (seedA\<lparr>x := 728, y := 60, vy := 6\<rparr>, False, True)"
    by (simp add: reflected_def wallA_def scenarioA_def arenaA_def seedA_def integrate_def bounceX_def bounceY_def)
  have g: "\<not> justSplit (seedA\<lparr>x := 720, y := 60\<rparr>)"
    by (simp add: seedA_def)
  have c: "1 \<le> radius (seedA\<lparr>x := 720, y := 60\<rparr>) * splitRatio wallA"
    by (simp add: seedA_def wallA_def scenarioA_def)
  have s: "real (length (balls wallA)) + real (length ([] :: ball list)) < maxBalls wallA"
    by (simp add: wallA_def scenarioA_def)
  have d: "\<forall>i. 0 \<le> const_stream (1/2) i \<and> const_stream (1/2) i < 1"
    by (simp add: const_stream_def)
  obtain ch f jx jy where
    it: "iteration wallA (const_stream (1/2)) (seedA\<lparr>x := 720, y := 60\<rparr>) ([], 0) =
          ((seedA\<lparr>x := 728, y := 60, vy := 6\<rparr>)\<lparr>radius := radius (seedA\<lparr>x := 720, y := 60\<rparr>) * splitRatio wallA,
              justSplit := True\<rparr>, [] @ [ch], 0 + 2 + (if False then 1 else 0) + (if True then 1 else 0))"
    and ch: "x ch = x (seedA\<lparr>x := 728, y := 60, vy := 6\<rparr>)" "y ch = y (seedA\<lparr>x := 728, y := 60, vy := 6\<rparr>)"
      "radius ch = radius (seedA\<lparr>x := 720, y := 60\<rparr>) * splitRatio wallA" "justSplit ch"
      "vx ch = vx (seedA\<lparr>x := 728, y := 60, vy := 6\<rparr>) * f + (if True then jx else 0)"
      "vy ch = vy (seedA\<lparr>x := 728, y := 60, vy := 6\<rparr>) * f + (if False then jy else 0)"
      "f = 0.8 + const_stream (1/2) 0 * 0.4"
      "jx = (const_stream (1/2) (0 + (if False then 3 else 2)) - 0.5) * 2"
    using split_effect [OF r _ g c s d, of 0] by blast
  have "iteration wallA (const_stream (1/2)) (seedA\<lparr>x := 720, y := 60\<rparr>) ([], 0) =
          (seedA\<lparr>x := 728, y := 60, vy := 6, radius := 48, justSplit := True\<rparr>, [ch], 3)"
    unfolding it by (simp add: seedA_def wallA_def scenarioA_def)
  moreover have "x ch = 728 \<and> y ch = 60 \<and> radius ch = 48 \<and> justSplit ch \<and> vx ch = 8 \<and> vy ch = 6"
    using ch by (simp add: seedA_def wallA_def scenarioA_def const_stream_def)
  ultimately show ?thesis
    using r g c s d by blast
qed

text \<open>
  The floor of the radius in JavaScript: if every ball has radius at least 1 when \<open>update\<close>
  is called, every ball (the old ones and the children) has radius at least 1 when it
  returns. An iteration sets the radius to \<open>radius * splitRatio\<close> when it splits, which it
  does only when that value is at least 1; after a hit without the grace flag that does not
  split it sets the radius to \<open>max radius 1\<close>; otherwise it leaves the radius as it is.
\<close>

lemma iteration_radius_exact:
  "radius (fst (iteration B rnd b0 (nb, k))) =
     (case reflected (canvas B) b0 of (p, hitX, hitY) \<Rightarrow>
        if (hitX \<or> hitY) \<and> \<not> justSplit b0 then
          if 1 \<le> radius b0 * splitRatio B \<and> real (length (balls B)) + real (length nb) < maxBalls B
          then radius b0 * splitRatio B
          else max (radius b0) 1
        else radius b0)"
proof -
  obtain p hx hy where r: "reflected (canvas B) b0 = (p, hx, hy)"
    by (rule reflected_cases)
  then have "radius p = radius b0"
    by (simp add: reflected_radius)
  with r show ?thesis
    by (simp add: iteration_reflected)
qed

lemma radius_floor_js:
  assumes "\<forall>b\<in>set (balls B). 1 \<le> radius b"
  shows "\<forall>b\<in>set (balls (fst (update rnd (B, k)))). 1 \<le> radius b"
  using update_radius [of "(B, k)" rnd] assms by simp

lemma radius_floor_js_example:
  "list_all (\<lambda>b. 1 \<le> radius b) (balls wallA)
   \<and> list_all (\<lambda>b. 1 \<le> radius b) (balls (fst (update (const_stream 0) (wallA, 0))))
   \<and> map radius (balls (fst (update (const_stream 0) (wallA, 0)))) = [48, 48]"
proof -
  have h: "\<forall>b\<in>set (balls wallA). 1 \<le> radius b"
    by (simp add: wallA_def scenarioA_def seedA_def)
  have "map radius (balls (fst (update (const_stream 0) (wallA, 0)))) = [48, 48]"
    by (simp add: wallA_def update_def scenarioA_def seedA_def arenaA_def iteration_def
        integrate_def bounceX_def bounceY_def newBall_def Let_def)
  with radius_floor_js [OF h, of "const_stream 0" 0] h show ?thesis
    by (simp add: list_all_iff)
qed

section \<open>The claims\<close>

text \<open>
  C1, as amended. From the object the constructor returns, for every random stream and
  every number of ticks: the count \<open>getBallCount\<close> returns does not decrease from one
  tick to the next, and it never exceeds the larger of 1 and the cap \<open>maxBalls\<close> rounded
  up to an integer, that is \<open>maxBalls\<close> whenever \<open>maxBalls\<close> is an integer and at least
  1. (The constructor checks nothing and pushes the seed whatever the cap is: with a cap
  below 1 the count 1 is above the cap, and with a cap that is no integer the split taken
  at \<open>balls.length + newBalls.length < maxBalls\<close> brings the count above it. These are the
  two counterexamples, with the caps 0 and 1.5.)
\<close>

theorem count_monotone_and_capped:
  assumes "constructor cv mb sr = Inr B"
  shows "getBallCount (fst (ticks rnd n (B, k))) \<le> getBallCount (fst (ticks rnd (Suc n) (B, k))) \<and>
         int (getBallCount (fst (ticks rnd n (B, k)))) \<le> max 1 \<lceil>mb\<rceil>"
proof -
  from assms have B: "getBallCount B = 1" "maxBalls B = mb"
    by (auto simp: constructor_def getBallCount_def)
  show ?thesis
    using update_count [of "ticks rnd n (B, k)" rnd] ticks_count_bound [of rnd n "(B, k)"]
    by (simp add: B)
qed

theorem count_monotone_and_capped_witness:
  "constructor arenaA 10 0.8 = Inr scenarioA
   \<and> getBallCount (fst (ticks (const_stream 0) 41 (scenarioA, 0)))
       \<le> getBallCount (fst (ticks (const_stream 0) (Suc 41) (scenarioA, 0)))
   \<and> int (getBallCount (fst (ticks (const_stream 0) 41 (scenarioA, 0)))) \<le> max 1 \<lceil>10 :: real\<rceil>
   \<and> max 1 \<lceil>10 :: real\<rceil> = 10"
proof -
  have c: "constructor arenaA 10 0.8 = Inr scenarioA"
    by (simp add: constructor_def scenarioA_def arenaA_def seedA_def)
  from count_monotone_and_capped [OF c, of "const_stream 0" 41 0] c show ?thesis
    by simp
qed

theorem count_exceeds_cap_counterexample:
  "constructor arenaA 0 0.8 = Inr (scenarioA\<lparr>maxBalls := 0\<rparr>)
   \<and> getBallCount (scenarioA\<lparr>maxBalls := 0\<rparr>) = 1
   \<and> \<not> real (getBallCount (fst (ticks (const_stream 0) 0 (scenarioA\<lparr>maxBalls := 0\<rparr>, 0))))
         \<le> maxBalls (scenarioA\<lparr>maxBalls := 0\<rparr>)
   \<and> constructor \<lparr>width = 120, height = 600\<rparr> 1.5 0.8 = Inr (narrowJS\<lparr>maxBalls := 1.5\<rparr>)
   \<and> getBallCount (fst (ticks (const_stream 0) 1 (narrowJS\<lparr>maxBalls := 1.5\<rparr>, 0))) = 2
   \<and> \<not> real (getBallCount (fst (ticks (const_stream 0) 1 (narrowJS\<lparr>maxBalls := 1.5\<rparr>, 0))))
         \<le> maxBalls (narrowJS\<lparr>maxBalls := 1.5\<rparr>)"
  by (simp add: constructor_def getBallCount_def scenarioA_def arenaA_def seedA_def narrowJS_def
      update_def iteration_def integrate_def bounceX_def bounceY_def newBall_def Let_def)

text \<open>
  C2. The floor of the radius. In the sequential backend it holds (\<open>radius_floor_js\<close>,
  \<open>iteration_radius_exact\<close>). The compute shader loses it when invocations interleave: an
  invocation takes the number of live balls from its own \<open>atomicLoad\<close> (line 35), and a
  split raises \<open>ball_count\<close> (line 90) before it writes the child (line 110). On the
  120 x 600 canvas, first dispatch, schedule \<open>race\<close>: every ball that is live at the start
  (slot 0, radius 60) has radius at least 1; invocation 0 splits and raises the count to 2;
  invocation 1 loads the count 2, finds itself live and reads slot 1 while it still holds
  the zeros of the fresh buffer; invocation 0 writes the child (radius 48) into slot 1
  and returns; invocation 1 writes what it has read back into slot 1. All 64 invocations
  have returned, \<open>ball_count\<close> is 2, and the live ball in slot 1 has radius 0.
\<close>

theorem shader_interleaving_breaks_radius_floor:
  "device narrow = Some g0
   \<and> ball_count g0 = 1 \<and> ball_radius (balls_buffer g0 ! 0) = 60
   \<and> race = [0, 0, 0, 0, 1, 1, 0, 0, 1] @ map word_of_nat [2 ..< 64]
   \<and> list_all (\<lambda>idx. pc (fst (interleaved race g0) idx) = Returned) (invocations narrow)
   \<and> ball_count (snd (interleaved (take 4 race) g0)) = 2
   \<and> balls_buffer (snd (interleaved (take 6 race) g0)) ! 1 = zero_ball
   \<and> ball_radius (balls_buffer (snd (interleaved (take 8 race) g0)) ! 1) = 48
   \<and> ball_count (snd (interleaved race g0)) = 2
   \<and> ball_radius (balls_buffer (snd (interleaved race g0)) ! 0) = 48
   \<and> balls_buffer (snd (interleaved race g0)) ! 1 = zero_ball
   \<and> ball_radius (balls_buffer (snd (interleaved race g0)) ! 1) = 0
   \<and> \<not> 1 \<le> ball_radius (balls_buffer (snd (interleaved race g0)) ! 1)"
proof -
  have i: "invocations narrow = map word_of_nat [0 ..< 64]"
    by (simp add: invocations_def narrow_def initBuffers_def)
  have t4: "take 4 race = replicate (Suc (Suc (Suc (Suc 0)))) 0"
    by (simp add: race_def)
  have t6: "take 6 race = replicate (Suc (Suc (Suc (Suc 0)))) 0 @ replicate (Suc (Suc 0)) 1"
    by (simp add: race_def)
  have s4: "snd (interleaved (take 4 race) g0) = g0\<lparr>ball_count := 2\<rparr>"
    unfolding t4 interleaved_def turns_replicate by (simp add: stage_a del: steps.simps replicate.simps)
  have s6: "snd (interleaved (take 6 race) g0) = g0\<lparr>ball_count := 2\<rparr>"
    unfolding t6 interleaved_def foldl_append turns_replicate
    by (simp add: stage_a stage_b del: steps.simps replicate.simps)
  have s8: "snd (interleaved (take 8 race) g0) = first_0" and s9: "snd (interleaved race g0) = raced"
    using race_run by simp_all
  have "device narrow = Some g0"
    by (rule narrow_g0)
  moreover have "ball_count g0 = 1" "ball_radius (balls_buffer g0 ! 0) = 60"
    by (simp_all add: g0_eq)
  moreover have "race = [0, 0, 0, 0, 1, 1, 0, 0, 1] @ map word_of_nat [2 ..< 64]"
    by (rule race_def)
  moreover have "list_all (\<lambda>idx. pc (fst (interleaved race g0) idx) = Returned) (invocations narrow)"
    using race_run unfolding i list_all_iff by auto
  moreover have "ball_count (snd (interleaved (take 4 race) g0)) = 2"
    unfolding s4 by simp
  moreover have "balls_buffer (snd (interleaved (take 6 race) g0)) ! 1 = zero_ball"
    unfolding s6 by (simp add: g0_eq)
  moreover have "ball_radius (balls_buffer (snd (interleaved (take 8 race) g0)) ! 1) = 48"
    unfolding s8 by (simp add: first_0_def)
  moreover have "ball_count (snd (interleaved race g0)) = 2"
    "ball_radius (balls_buffer (snd (interleaved race g0)) ! 0) = 48"
    "balls_buffer (snd (interleaved race g0)) ! 1 = zero_ball"
    unfolding s9 by (simp_all add: raced_def first_0_def)
  moreover have "ball_radius (balls_buffer (snd (interleaved race g0)) ! 1) = 0"
    "\<not> 1 \<le> ball_radius (balls_buffer (snd (interleaved race g0)) ! 1)"
    unfolding s9 by (simp_all add: raced_def first_0_def zero_ball_def)
  ultimately show ?thesis
    by (simp only: simp_thms)
qed

text \<open>
  C3. The compute shader, at a failing input: the WebGPU backend of a 120 x 600 canvas
  (cap 10, split ratio 0.8), two calls of \<open>update\<close> whose invocations run in index order.
  In the first dispatch invocation 0 splits the seed and writes the child to slot 1; the
  child is processed by invocation 1 of the same dispatch, which clears its flag. In the
  second dispatch the child, created one tick before, hits the left wall and splits: the
  count is 3, slot 1 has radius 38.4 and the flag, slot 2 holds its child, while the parent
  in slot 0 keeps radius 48. In JavaScript the same two ticks leave two balls: a ball that
  carries the flag never splits (\<open>grace_next_tick\<close>).
\<close>

theorem shader_child_splits_in_next_dispatch:
  "(\<exists>W1 g1 W2 g2.
       update_in_order narrow = Some W1 \<and> device W1 = Some g1
     \<and> update_in_order W1 = Some W2 \<and> device W2 = Some g2
     \<and> ball_count g1 = 2 \<and> ball_radius (balls_buffer g1 ! 1) = 48
     \<and> ball_count g2 = 3
     \<and> ball_radius (balls_buffer g2 ! 0) = 48 \<and> just_split (balls_buffer g2 ! 0) = 0
     \<and> ball_radius (balls_buffer g2 ! 1) = 38.4 \<and> just_split (balls_buffer g2 ! 1) = 1
     \<and> ball_radius (balls_buffer g2 ! 2) = 38.4)
   \<and> length (balls (fst (ticks rnd 2 (narrowJS, k)))) = 2"
proof -
  have "ball_count first_1 = 2 \<and> ball_radius (balls_buffer first_1 ! 1) = 48"
    by (simp add: first_1_def)
  moreover have "ball_count second_2 = 3
     \<and> ball_radius (balls_buffer second_2 ! 0) = 48 \<and> just_split (balls_buffer second_2 ! 0) = 0
     \<and> ball_radius (balls_buffer second_2 ! 1) = 38.4 \<and> just_split (balls_buffer second_2 ! 1) = 1
     \<and> ball_radius (balls_buffer second_2 ! 2) = 38.4"
    by (simp add: second_2_def)
  ultimately show ?thesis
    using tick1 tick2 narrowJS_tick2 [of rnd k] by simp
qed

text \<open>
  C4. The effect of a split. In the sequential backend the factor of a child lies in
  [0.8, 1.2) and each jitter in [-1, 1), \<open>Math.random()\<close> being below 1 (lemma
  \<open>split_effect\<close>).
  The compute shader builds its child by the same formulas from its own \<open>random()\<close>, which
  divides by 4294967295.0 instead of 4294967296.0 and so returns 1.0 when the hash is
  \<open>0xFFFFFFFF\<close>. On a 2765 x 769 canvas invocation 297 seeds the generator with 3054326474;
  its first draw gives the factor, its second draw is exactly 1: when ball 297 hits the right
  wall and splits, the \<open>vy\<close> of the child gets the jitter 1.0, outside [-1, 1).
\<close>

theorem shader_jitter_reaches_one:
  "(297 :: u32) * 747796405
      + u32_of_f32 (config_width (config wide) * config_height (config wide)) = 3054326474
   \<and> random32 3054326474 = (3010318369 / 4294967295, 2222045655)
   \<and> fst (random32 2222045655) = 1
   \<and> ball_count wide = 298 \<and> ball_count (main 297 wide) = 299
   \<and> ball_vel (balls_buffer (main 297 wide) ! 297) = (- 8, - 6)
   \<and> ball_vel (balls_buffer (main 297 wide) ! 298)
       = (- 8 * (0.8 + 3010318369 / 4294967295 * 0.4),
          - 6 * (0.8 + 3010318369 / 4294967295 * 0.4) + 1)
   \<and> \<not> snd (ball_vel (balls_buffer (main 297 wide) ! 298))
          - snd (ball_vel (balls_buffer (main 297 wide) ! 297))
            * (0.8 + 3010318369 / 4294967295 * 0.4) < 1"
proof -
  have "(297 :: u32) * 747796405
      + u32_of_f32 (config_width (config wide) * config_height (config wide)) = 3054326474"
    using seed_297 by (simp add: wide_def)
  moreover have "ball_count wide = 298"
    by (simp add: wide_def)
  ultimately show ?thesis
    using main_297 by (simp add: draws_297)
qed



text \<open>
  C6. The compute shader, at a failing input: the WebGPU backend of a 120 x 600 canvas
  (cap 10, split ratio 0.8), one call of \<open>update\<close> whose invocations run in index order.
  Invocation 0 splits the seed and writes the child to slot 1; invocation 1 loads the count
  after that, finds its index below it and processes the child in the same dispatch: the
  child has left the position (60, 294) of its parent and has lost its flag. In JavaScript
  the child of the same call stays at the position of its parent and keeps the flag: the
  children are appended after the loop (\<open>children_appended\<close>).
\<close>

theorem shader_child_processed_in_its_dispatch:
  "(\<exists>W g. update_in_order narrow = Some W \<and> device W = Some g
      \<and> ball_count g = 2
      \<and> ball_pos (balls_buffer g ! 0) = (60, 294) \<and> just_split (balls_buffer g ! 0) = 1
      \<and> fst (ball_pos (balls_buffer g ! 1)) < 60 \<and> snd (ball_pos (balls_buffer g ! 1)) < 294
      \<and> just_split (balls_buffer g ! 1) = 0)
   \<and> map justSplit (balls (fst (update rnd (narrowJS, k)))) = [True, True]
   \<and> map x (balls (fst (update rnd (narrowJS, k)))) = [60, 60]
   \<and> map y (balls (fst (update rnd (narrowJS, k)))) = [294, 294]"
proof -
  have "ball_count first_1 = 2
      \<and> ball_pos (balls_buffer first_1 ! 0) = (60, 294) \<and> just_split (balls_buffer first_1 ! 0) = 1
      \<and> fst (ball_pos (balls_buffer first_1 ! 1)) < 60 \<and> snd (ball_pos (balls_buffer first_1 ! 1)) < 294
      \<and> just_split (balls_buffer first_1 ! 1) = 0"
    by (simp add: first_1_def)
  then show ?thesis
    using tick1 narrowJS_tick1 [of rnd k] by simp
qed

text \<open>
  C7. Scenario A (800 x 600, cap 10, split ratio 0.8, the seed at the centre with radius 60
  and velocity (8, -6)), for every random stream: the population is 1 during the first 40
  ticks; tick 41 is the first wall impact, after which there are two balls, both of radius
  48; the population never decreases; after 405 ticks at the latest it is 10, it stays 10
  from then on, and every later tick leaves each radius at \<open>max radius 1\<close>.
\<close>

theorem scenario_A:
  assumes "constructor \<lparr>width = 800, height = 600\<rparr> 10 0.8 = Inr B"
  shows "(\<forall>n\<le>40. getBallCount (fst (ticks rnd n (B, k))) = 1)
       \<and> map radius (balls (fst (ticks rnd 41 (B, k)))) = [48, 48]
       \<and> (\<forall>n. getBallCount (fst (ticks rnd n (B, k))) \<le> getBallCount (fst (ticks rnd (Suc n) (B, k))))
       \<and> (\<forall>n\<ge>405. getBallCount (fst (ticks rnd n (B, k))) = 10
              \<and> (\<forall>i<10. radius (balls (fst (ticks rnd (Suc n) (B, k))) ! i)
                            = max (radius (balls (fst (ticks rnd n (B, k))) ! i)) 1))"
proof -
  have B: "B = scenarioA"
    using assms by (simp add: constructor_def scenarioA_def arenaA_def seedA_def)
  have 1: "\<forall>n\<le>40. getBallCount (fst (ticks rnd n (scenarioA, k))) = 1"
    by (simp add: scenarioA_flight getBallCount_def)
  have 3: "\<forall>n. getBallCount (fst (ticks rnd n (scenarioA, k))) \<le> getBallCount (fst (ticks rnd (Suc n) (scenarioA, k)))"
    using scenarioA_mono by blast
  have 4: "getBallCount (fst (ticks rnd n (scenarioA, k))) = 10
              \<and> (\<forall>i<10. radius (balls (fst (ticks rnd (Suc n) (scenarioA, k))) ! i)
                            = max (radius (balls (fst (ticks rnd n (scenarioA, k))) ! i)) 1)"
    if n: "405 \<le> n" for n
  proof -
    let ?s = "ticks rnd n (scenarioA, k)"
    have cnt: "getBallCount (fst ?s) = 10"
      using n by (rule scenarioA_full)
    have full: "maxBalls (fst ?s) \<le> real (length (balls (fst ?s)))"
      using cnt by (simp add: scenarioA_config getBallCount_def)
    have rad: "\<forall>b\<in>set (balls (fst ?s)). 1 \<le> radius b"
      by (rule ticks_radius) (simp add: scenarioA_def seedA_def)
    have "radius (balls (fst (update rnd (fst ?s, snd ?s))) ! i) = max (radius (balls (fst ?s) ! i)) 1"
      if "i < 10" for i
      using full rad that cnt by (intro full_update_radius) (simp_all add: getBallCount_def)
    with cnt show ?thesis by simp
  qed
  from 1 scenarioA_41 [of rnd k] 3 4 show ?thesis
    unfolding B by blast
qed

theorem scenario_A_witness:
  "constructor \<lparr>width = 800, height = 600\<rparr> 10 0.8 = Inr scenarioA
   \<and> getBallCount (fst (ticks (const_stream 0) 40 (scenarioA, 0))) = 1
   \<and> map radius (balls (fst (ticks (const_stream 0) 41 (scenarioA, 0)))) = [48, 48]
   \<and> getBallCount (fst (ticks (const_stream 0) 405 (scenarioA, 0))) = 10"
proof -
  have c: "constructor \<lparr>width = 800, height = 600\<rparr> 10 0.8 = Inr scenarioA"
    by (simp add: constructor_def scenarioA_def arenaA_def seedA_def)
  from scenario_A [OF c, of "const_stream 0" 0] c show ?thesis
    by simp
qed

text \<open>
  C8, as amended. Neither constructor validates anything: for every canvas, cap and split
  ratio the call returns an object that holds these values. The seed of the JavaScript
  backend has the radius 60 and the velocity (8, -6) whatever the arguments are: they are
  constants of the constructor, not configuration. (The counterexample: a cap of 0 and a
  split ratio of 5 are accepted by both constructors.)
\<close>

theorem construction_never_fails:
  "(\<exists>B. constructor cv mb sr = Inr B \<and> canvas B = cv \<and> maxBalls B = mb \<and> splitRatio B = sr
        \<and> map radius (balls B) = [60] \<and> map vx (balls B) = [8] \<and> map vy (balls B) = [- 6])
   \<and> (\<exists>W. webgpu_constructor cv mb sr = Inr W \<and> gpu_canvas W = cv \<and> gpu_maxBalls W = mb
        \<and> gpu_splitRatio W = sr)"
  by (simp add: constructor_def webgpu_constructor_def)

theorem construction_counterexample:
  "\<not> (0 < (5::real) \<and> (5::real) < 1) \<and> (0::int) < 1
   \<and> constructor arenaA 0 5 = Inr (scenarioA\<lparr>maxBalls := 0, splitRatio := 5\<rparr>)
   \<and> webgpu_constructor arenaA 0 5 =
       Inr \<lparr>gpu_canvas = arenaA, gpu_maxBalls = 0, gpu_splitRatio = 5, ballCount = 1, device = None\<rparr>"
  by (simp add: constructor_def webgpu_constructor_def scenarioA_def seedA_def arenaA_def)

text \<open>
  C9. \<open>render\<close> clears the canvas and then draws by the size of the population. Above
  10000 balls: for each distinct colour, in the order of its first ball, one change of the
  fill style to that colour, followed by one \<open>fillRect\<close> for every ball of that colour, the
  square with the corner \<open>(x - radius, y - radius)\<close> and the side \<open>radius * 2\<close>, which is
  centred on the ball. Up to 10000 balls: for each ball, in the order of the list, its own
  colour as fill style and the path of one full circle (\<open>arc\<close> from 0 to \<open>2 * pi\<close>) at
  its position with its radius, filled. The colours of the batched draw are distinct and
  are exactly the colours of the balls.
\<close>

theorem render_strategy:
  "(10000 < getBallCount B \<longrightarrow>
      render B = [SetFillStyle (Css ''#1a1a1a''), FillRect 0 0 (width (canvas B)) (height (canvas B))]
                 @ concat (map (\<lambda>c. SetFillStyle (Rgb (drop_bit 16 c AND 0xFF) (drop_bit 8 c AND 0xFF) (c AND 0xFF))
                                     # map (\<lambda>b. FillRect (x b - radius b) (y b - radius b) (radius b * 2) (radius b * 2))
                                         (filter (\<lambda>b. color b = c) (balls B)))
                          (colors_of (balls B))))
   \<and> (getBallCount B \<le> 10000 \<longrightarrow>
      render B = [SetFillStyle (Css ''#1a1a1a''), FillRect 0 0 (width (canvas B)) (height (canvas B))]
                 @ concat (map (\<lambda>b. [SetFillStyle (Rgb (drop_bit 16 (color b) AND 0xFF) (drop_bit 8 (color b) AND 0xFF)
                                                        (color b AND 0xFF)),
                                      BeginPath, Arc (x b) (y b) (radius b) 0 (pi * 2), Fill, ClosePath])
                          (balls B)))
   \<and> distinct (colors_of (balls B)) \<and> set (colors_of (balls B)) = color ` set (balls B)"
  by (simp add: render_def getBallCount_def colorGroups_eq colors_of_props comp_def rgb_def
      fillSquare_def [abs_def] fillCircle_def [abs_def])

theorem render_strategy_witness:
  "10000 < getBallCount crowdB
   \<and> render crowdB =
       [SetFillStyle (Css ''#1a1a1a''), FillRect 0 0 800 600,
        SetFillStyle (Rgb 255 68 68), FillRect 340 240 120 120]
       @ replicate 9999 (FillRect 95 45 10 10)
       @ [SetFillStyle (Rgb 0 255 0), FillRect 8 18 4 4]
   \<and> getBallCount pairB \<le> 10000
   \<and> render pairB =
       [SetFillStyle (Css ''#1a1a1a''), FillRect 0 0 800 600,
        SetFillStyle (Rgb 255 68 68), BeginPath, Arc 400 300 60 0 (pi * 2), Fill, ClosePath,
        SetFillStyle (Rgb 0 255 0), BeginPath, Arc 10 20 2 0 (pi * 2), Fill, ClosePath]"
proof -
  have big: "10000 < getBallCount crowdB"
    by (simp add: crowdB_def getBallCount_def)
  have small: "getBallCount pairB \<le> 10000"
    by (simp add: pairB_def getBallCount_def)
  have c: "colors_of (balls crowdB) = [0xFF4444, 0x00FF00]"
    by (simp add: crowdB_def colors_of_def seedA_def remdups_replicate_append)
  from render_strategy [of crowdB] big
  have 1: "render crowdB =
       [SetFillStyle (Css ''#1a1a1a''), FillRect 0 0 800 600,
        SetFillStyle (Rgb 255 68 68), FillRect 340 240 120 120]
       @ replicate 9999 (FillRect 95 45 10 10)
       @ [SetFillStyle (Rgb 0 255 0), FillRect 8 18 4 4]"
    by (simp add: c) (simp add: crowdB_def scenarioA_def arenaA_def seedA_def)
  from render_strategy [of pairB] small
  have 2: "render pairB =
       [SetFillStyle (Css ''#1a1a1a''), FillRect 0 0 800 600,
        SetFillStyle (Rgb 255 68 68), BeginPath, Arc 400 300 60 0 (pi * 2), Fill, ClosePath,
        SetFillStyle (Rgb 0 255 0), BeginPath, Arc 10 20 2 0 (pi * 2), Fill, ClosePath]"
    by (simp add: pairB_def scenarioA_def arenaA_def seedA_def)
  from big small 1 2 show ?thesis by simp
qed

text \<open>
  C10, as amended. If the split ratio is at most 1 and, when \<open>update\<close> is called, every
  ball has radius at least 1 and lies within the arena, then every ball, the children
  included, lies within the arena when it returns. (With a split ratio above 1 a split
  grows the ball that touches the wall: the counterexample.)
\<close>

theorem containment_preserved:
  assumes "splitRatio B \<le> 1"
    and "\<forall>b\<in>set (balls B). 1 \<le> radius b"
    and "\<forall>b\<in>set (balls B). within_arena (canvas B) b"
  shows "\<forall>b\<in>set (balls (fst (update rnd (B, k)))). within_arena (canvas (fst (update rnd (B, k)))) b"
  using loop_within [OF assms(1), of "balls B" "[]" rnd k] assms(2,3)
  by (auto simp: update_eq)

theorem containment_preserved_witness:
  "splitRatio wallA \<le> 1
   \<and> list_all (\<lambda>b. 1 \<le> radius b) (balls wallA)
   \<and> list_all (within_arena (canvas wallA)) (balls wallA)
   \<and> length (balls (fst (update (const_stream 0) (wallA, 0)))) = 2
   \<and> list_all (within_arena (canvas (fst (update (const_stream 0) (wallA, 0)))))
        (balls (fst (update (const_stream 0) (wallA, 0))))"
proof -
  have a: "splitRatio wallA \<le> 1"
    by (simp add: wallA_def scenarioA_def)
  have b: "\<forall>b\<in>set (balls wallA). 1 \<le> radius b"
    by (simp add: wallA_def scenarioA_def seedA_def)
  have c: "\<forall>b\<in>set (balls wallA). within_arena (canvas wallA) b"
    by (simp add: wallA_def scenarioA_def seedA_def arenaA_def within_arena_def)
  have d: "length (balls (fst (update (const_stream 0) (wallA, 0)))) = 2"
    by (simp add: wallA_def update_def scenarioA_def seedA_def arenaA_def iteration_def
        integrate_def bounceX_def bounceY_def newBall_def Let_def)
  from containment_preserved [OF a b c, of "const_stream 0" 0] a b c d show ?thesis
    by (simp add: list_all_iff)
qed

theorem containment_counterexample:
  "constructor \<lparr>width = 120, height = 600\<rparr> 10 2 =
     Inr \<lparr>canvas = \<lparr>width = 120, height = 600\<rparr>, maxBalls = 10, splitRatio = 2,
          balls = [\<lparr>x = 60, y = 300, vx = 8, vy = - 6, radius = 60, color = 0xFF4444, justSplit = False\<rparr>]\<rparr>
   \<and> within_arena \<lparr>width = 120, height = 600\<rparr>
      \<lparr>x = 60, y = 300, vx = 8, vy = - 6, radius = 60, color = 0xFF4444, justSplit = False\<rparr>
   \<and> \<not> within_arena \<lparr>width = 120, height = 600\<rparr>
        (hd (balls (fst (update (const_stream 0)
           (\<lparr>canvas = \<lparr>width = 120, height = 600\<rparr>, maxBalls = 10, splitRatio = 2,
             balls = [\<lparr>x = 60, y = 300, vx = 8, vy = - 6, radius = 60, color = 0xFF4444, justSplit = False\<rparr>]\<rparr>, 0)))))"
  by (simp add: constructor_def within_arena_def update_def iteration_def integrate_def bounceX_def bounceY_def
      newBall_def Let_def)

end
